theory Spec2Isabelle
  imports Main "HOL-Library.Multiset"
begin

section \<open>Data model\<close>

text \<open>
  The orchestrator \<^verbatim>\<open>processMessagesToDoc\<close> and its helpers (\<^verbatim>\<open>docs_utils.js\<close>) run
  against three Google services: Gmail (read-only), the Script Properties store and the
  Drive/Docs backend. The model below makes their state explicit.

  \<^item> A \<^verbatim>\<open>Date\<close> is its \<^verbatim>\<open>valueOf()\<close>: integer milliseconds since the epoch. Every
    comparison and subtraction of dates in the source goes through \<^verbatim>\<open>valueOf()\<close>, and
    \<^verbatim>\<open>toISOString()\<close> followed by \<^verbatim>\<open>new Date(...)\<close> returns the same value, so the
    property \<^verbatim>\<open>gtd_last_iso\<close> is modelled by the timestamp it encodes.
  \<^item> Gmail message identifiers are JavaScript strings.
  \<^item> Document identifiers are opaque handles handed out by the backend; they are
    modelled as natural numbers drawn from a counter.
\<close>

record message =
  msg_id :: string
  msg_date :: int
  msg_subject :: string
  msg_from :: string
  msg_to :: string
  msg_plainBody :: string
  msg_body :: string

text \<open>The object literal \<^verbatim>\<open>{ date, message, id, subj }\<close> pushed onto \<^verbatim>\<open>newMessages\<close>.\<close>

record item =
  it_date :: int
  it_message :: message
  it_id :: string
  it_subj :: string

section \<open>Configuration\<close>

definition CONSOLIDATE_LABEL :: string where
  "CONSOLIDATE_LABEL = ''GTD_LABEL''"

definition MAX_MESSAGES_PER_RUN :: nat where
  "MAX_MESSAGES_PER_RUN = 200"

definition RECENT_IDS_LIMIT :: nat where
  "RECENT_IDS_LIMIT = 200"

text \<open>The default \<^verbatim>\<open>'1970-01-01T00:00:00Z'\<close>, as a timestamp.\<close>

definition EPOCH :: int where
  "EPOCH = 0"

section \<open>JavaScript containers\<close>

text \<open>
  A JavaScript \<^verbatim>\<open>Set\<close> iterates in insertion order and \<^verbatim>\<open>add\<close> of a present element
  changes nothing; it is a list without duplicates. \<^verbatim>\<open>new Set(array)\<close> adds the array's
  elements one by one.
\<close>

definition set_has :: "'a list \<Rightarrow> 'a \<Rightarrow> bool" where
  "set_has s x = (x \<in> set s)"

definition set_add :: "'a list \<Rightarrow> 'a \<Rightarrow> 'a list" where
  "set_add s x = (if set_has s x then s else s @ [x])"

definition new_Set :: "'a list \<Rightarrow> 'a list" where
  "new_Set arr = foldl set_add [] arr"

text \<open>
  \<^verbatim>\<open>arr.slice(-n)\<close> for \<open>n > 0\<close>: the last \<open>n\<close> elements, the whole array when it is
  shorter.
\<close>

definition slice_last :: "nat \<Rightarrow> 'a list \<Rightarrow> 'a list" where
  "slice_last n arr = drop (length arr - n) arr"

text \<open>
  \<^verbatim>\<open>Array.prototype.sort(cmp)\<close> is stable (V8 runtime, ES2019): with a consistent
  comparator the result is the one stable arrangement, which insertion from the right
  computes. \<open>cmp a b \<le> 0\<close> keeps \<open>a\<close> in front of \<open>b\<close>.
\<close>

fun js_insert :: "('a \<Rightarrow> 'a \<Rightarrow> int) \<Rightarrow> 'a \<Rightarrow> 'a list \<Rightarrow> 'a list" where
  "js_insert cmp x [] = [x]"
| "js_insert cmp x (y # ys) =
     (if cmp x y \<le> 0 then x # y # ys else y # js_insert cmp x ys)"

definition js_sort :: "('a \<Rightarrow> 'a \<Rightarrow> int) \<Rightarrow> 'a list \<Rightarrow> 'a list" where
  "js_sort cmp xs = foldr (js_insert cmp) xs []"

section \<open>Candidate selection (processMessagesToDoc, lines 84--100)\<close>

text \<open>
  \<^verbatim>\<open>{ date: m.getDate(), message: m, id: m.getId(), subj: m.getSubject() || "(no subject)" }\<close>
\<close>

definition mk_item :: "message \<Rightarrow> item" where
  "mk_item m =
     \<lparr> it_date = msg_date m, it_message = m, it_id = msg_id m,
       it_subj = (if msg_subject m = [] then ''(no subject)'' else msg_subject m) \<rparr>"

text \<open>The test of line 93: \<^verbatim>\<open>m.getDate() > lastDate && !recent.has(m.getId())\<close>.\<close>

definition eligible :: "int \<Rightarrow> string list \<Rightarrow> message \<Rightarrow> bool" where
  "eligible lastDate recent m = (msg_date m > lastDate \<and> \<not> set_has recent (msg_id m))"

text \<open>The inner loop over the messages of one thread, pushing onto \<^verbatim>\<open>newMessages\<close>.\<close>

fun scan_messages :: "int \<Rightarrow> string list \<Rightarrow> message list \<Rightarrow> item list \<Rightarrow> item list" where
  "scan_messages lastDate recent [] newMessages = newMessages"
| "scan_messages lastDate recent (m # msgs) newMessages =
     scan_messages lastDate recent msgs
       (if eligible lastDate recent m then newMessages @ [mk_item m] else newMessages)"

text \<open>The outer loop over the threads; the state is \<^verbatim>\<open>(totalMsgsSeen, newMessages)\<close>.\<close>

fun scan_threads ::
  "int \<Rightarrow> string list \<Rightarrow> message list list \<Rightarrow> nat \<times> item list \<Rightarrow> nat \<times> item list" where
  "scan_threads lastDate recent [] acc = acc"
| "scan_threads lastDate recent (t # ts) (totalMsgsSeen, newMessages) =
     scan_threads lastDate recent ts
       (totalMsgsSeen + length t, scan_messages lastDate recent t newMessages)"

text \<open>The comparator of line 100: \<^verbatim>\<open>(a,b) => b.date - a.date\<close>.\<close>

definition newest_first :: "item \<Rightarrow> item \<Rightarrow> int" where
  "newest_first a b = it_date b - it_date a"

text \<open>Lines 86--100: scan the threads, then sort newest to oldest.\<close>

definition select_newMessages :: "message list list \<Rightarrow> int \<Rightarrow> string list \<Rightarrow> item list" where
  "select_newMessages threads lastDate recent =
     js_sort newest_first (snd (scan_threads lastDate recent threads (0, [])))"

section \<open>The Google services\<close>

text \<open>
  The body of a document is the list of its children, first child on top. The element
  types are the ones the copy loops of \<^verbatim>\<open>docs_utils.js\<close> dispatch on; \<open>OTHER\<close> stands
  for a child of any other type and carries the result of its \<^verbatim>\<open>getText()\<close> when it has
  that method. A paragraph carries its heading, set by \<^verbatim>\<open>setHeading\<close>.
\<close>

datatype heading = NORMAL | HEADING6

datatype element =
    PARAGRAPH heading string
  | LIST_ITEM string
  | TABLE "string list list"
  | PAGE_BREAK
  | INLINE_IMAGE string
  | OTHER "string option"

record document =
  doc_body :: "element list"
  doc_trashed :: bool

text \<open>One constructor per \<^verbatim>\<open>Logger.log\<close> call site, with the values it prints (elapsed times
  left out).\<close>

datatype log_entry =
    LOG_initialized "int option" nat
  | LOG_run_start string string int nat
  | LOG_scanned nat nat nat
  | LOG_samples "string list"
  | LOG_newest_oldest int int
  | LOG_no_new
  | LOG_inserting_plain nat nat
  | LOG_inserting_html nat nat
  | LOG_error string string
  | LOG_updated int nat
  | LOG_created nat
  | LOG_reset

text \<open>
  The state the script reads and writes. The three script properties are
  \<^verbatim>\<open>gtd_last_iso\<close>, \<^verbatim>\<open>gtd_consolidated_doc_id\<close> and \<^verbatim>\<open>gtd_recent_ids\<close> (\<open>None\<close>: the
  property is absent). \<open>docs\<close> is the Drive: the document with identifier \<open>i\<close> is the
  \<open>i\<close>-th entry, \<open>None\<close> once it is permanently deleted or inaccessible; an identifier
  beyond the list was never handed out. \<open>logger\<close> is the execution log.
\<close>

record world =
  prop_last_iso :: "int option"
  prop_consolidated_doc :: "nat option"
  prop_recent_ids :: "string list option"
  docs :: "document option list"
  logger :: "log_entry list"

text \<open>
  What the services answer during one execution, and is not state of the script:
  the threads a Gmail query matches (in result order), the exception the Docs backend
  raises when asked to insert a given element at the top of a body (\<open>None\<close>: the
  insertion succeeds), the outcome of the Drive HTML conversion (\<open>Inl\<close>: the exception
  raised; \<open>Inr\<close>: the children of the converted document), and \<^verbatim>\<open>Date.toString()\<close> in the
  script's time zone. An exception is represented by its \<^verbatim>\<open>toString()\<close>.

  The calls that can raise in the model are the resolution of a document identifier, the
  HTML conversion and the insertion of an element into the main body; the Gmail search,
  the writes to the temporary document and its trashing are taken to succeed. A newly
  created document has an empty body.
\<close>

record env =
  gmail_threads :: "string \<Rightarrow> message list list"
  insert_error :: "element \<Rightarrow> string option"
  html_convert :: "string \<Rightarrow> string + element list"
  date_toString :: "int \<Rightarrow> string"

definition Logger_log :: "log_entry \<Rightarrow> world \<Rightarrow> world" where
  "Logger_log e w = w\<lparr>logger := logger w @ [e]\<rparr>"

text \<open>\<^verbatim>\<open>GmailApp.search(query, start, max)\<close>: at most \<open>max\<close> threads, from position \<open>start\<close>.\<close>

definition GmailApp_search :: "env \<Rightarrow> string \<Rightarrow> nat \<Rightarrow> nat \<Rightarrow> message list list" where
  "GmailApp_search env query start mx = take mx (drop start (gmail_threads env query))"

definition lookup_doc :: "world \<Rightarrow> nat \<Rightarrow> document option" where
  "lookup_doc w i = (if i < length (docs w) then docs w ! i else None)"

definition update_doc :: "nat \<Rightarrow> (document \<Rightarrow> document) \<Rightarrow> world \<Rightarrow> world" where
  "update_doc i f w =
     (case lookup_doc w i of
        None \<Rightarrow> w
      | Some d \<Rightarrow> w\<lparr>docs := (docs w)[i := Some (f d)]\<rparr>)"

text \<open>\<^verbatim>\<open>DriveApp.getFileById\<close> and \<^verbatim>\<open>DocumentApp.openById\<close> raise when the identifier does
  not resolve; both resolve a trashed document.\<close>

definition DriveApp_getFileById :: "world \<Rightarrow> nat \<Rightarrow> string + document" where
  "DriveApp_getFileById w i =
     (case lookup_doc w i of
        None \<Rightarrow> Inl ''Exception: No item with the given ID could be found''
      | Some d \<Rightarrow> Inr d)"

definition DocumentApp_openById :: "world \<Rightarrow> nat \<Rightarrow> string + document" where
  "DocumentApp_openById w i =
     (case lookup_doc w i of
        None \<Rightarrow> Inl ''Exception: Document is missing''
      | Some d \<Rightarrow> Inr d)"

text \<open>\<^verbatim>\<open>DocumentApp.create(name)\<close>: a new, empty, live document under a new identifier.\<close>

definition DocumentApp_create :: "world \<Rightarrow> nat \<times> world" where
  "DocumentApp_create w =
     (length (docs w),
      w\<lparr>docs := docs w @ [Some \<lparr>doc_body = [], doc_trashed = False\<rparr>]\<rparr>)"

definition setTrashed :: "nat \<Rightarrow> world \<Rightarrow> world" where
  "setTrashed i w = update_doc i (\<lambda>d. d\<lparr>doc_trashed := True\<rparr>) w"

text \<open>
  \<^verbatim>\<open>mainBody.insertParagraph(0, text)\<close>, \<^verbatim>\<open>insertListItem(0, text)\<close>,
  \<^verbatim>\<open>insertPageBreak(0)\<close>, \<^verbatim>\<open>insertImage(0, blob)\<close>: the new element becomes the first
  child of the body, unless the backend raises. \<^verbatim>\<open>mainBody\<close> is an object the helpers
  obtain once from the opened document; the copy loops thread its children, and the
  helper writes them back to the document in the world.
\<close>

definition Body_insert0 :: "env \<Rightarrow> element \<Rightarrow> element list \<Rightarrow> string option \<times> element list" where
  "Body_insert0 env el mainBody =
     (case insert_error env el of
        Some e \<Rightarrow> (Some e, mainBody)
      | None \<Rightarrow> (None, el # mainBody))"

section \<open>State helpers (part\_000, lines 35--42)\<close>

definition getRecentIds :: "world \<Rightarrow> string list" where
  "getRecentIds w = (case prop_recent_ids w of None \<Rightarrow> [] | Some arr \<Rightarrow> new_Set arr)"

definition saveRecentIds :: "string list \<Rightarrow> world \<Rightarrow> world" where
  "saveRecentIds s w = w\<lparr>prop_recent_ids := Some (slice_last RECENT_IDS_LIMIT s)\<rparr>"

text \<open>\<^verbatim>\<open>props.getProperty(PROP_LAST_ISO) || '1970-01-01T00:00:00Z'\<close>, as a date.\<close>

definition watermark :: "world \<Rightarrow> int" where
  "watermark w = (case prop_last_iso w of None \<Rightarrow> EPOCH | Some d \<Rightarrow> d)"

section \<open>ensureConsolidatedDoc\_ (part\_000, lines 155--177)\<close>

definition ensureConsolidatedDoc :: "world \<Rightarrow> nat \<times> world" where
  "ensureConsolidatedDoc w =
     (let needsNew =
            (case prop_consolidated_doc w of
               None \<Rightarrow> True
             | Some i \<Rightarrow>
                 (case DriveApp_getFileById w i of
                    Inl e \<Rightarrow> True
                  | Inr f \<Rightarrow> doc_trashed f))
      in case (needsNew, prop_consolidated_doc w) of
           (False, Some i) \<Rightarrow> (i, w)
         | _ \<Rightarrow>
             (let (newId, w1) = DocumentApp_create w
              in (newId, Logger_log (LOG_created newId) (w1\<lparr>prop_consolidated_doc := Some newId\<rparr>))))"

section \<open>gtd\_resetForReimport and gtd\_init (part\_000, lines 50--58 and 179--184)\<close>

definition gtd_resetForReimport :: "world \<Rightarrow> world" where
  "gtd_resetForReimport w =
     Logger_log LOG_reset (w\<lparr>prop_last_iso := Some EPOCH, prop_recent_ids := None\<rparr>)"

definition gtd_init :: "world \<Rightarrow> world" where
  "gtd_init w =
     (let w1 = (if prop_last_iso w = None then w\<lparr>prop_last_iso := Some EPOCH\<rparr> else w);
          (i, w2) = ensureConsolidatedDoc w1
      in Logger_log (LOG_initialized (prop_last_iso w2) i) w2)"

section \<open>docs\_utils.js\<close>

text \<open>\<^verbatim>\<open>s.split(/\r?\n/)\<close>: the lines of a string; a carriage return only counts in front
  of a line feed.\<close>

fun split_lines_from :: "string \<Rightarrow> string \<Rightarrow> string list" where
  "split_lines_from cur [] = [rev cur]"
| "split_lines_from cur [c] = (if c = CHR 0x0A then [rev cur, []] else [rev (c # cur)])"
| "split_lines_from cur (c # d # cs) =
     (if c = CHR 0x0D \<and> d = CHR 0x0A then rev cur # split_lines_from [] cs
      else if c = CHR 0x0A then rev cur # split_lines_from [] (d # cs)
      else split_lines_from (c # cur) (d # cs))"

definition split_lines :: "string \<Rightarrow> string list" where
  "split_lines s = split_lines_from [] s"

text \<open>\<^verbatim>\<open>array.join(sep)\<close>\<close>

fun join :: "string \<Rightarrow> string list \<Rightarrow> string" where
  "join sep [] = []"
| "join sep [x] = x"
| "join sep (x # y # ys) = x @ sep @ join sep (y # ys)"

text \<open>\<^verbatim>\<open>s.replace(/c/g, r)\<close> for a single character \<open>c\<close>, and \<^verbatim>\<open>escapeHtml\<close> (lines
  188--193).\<close>

definition replace_all :: "char \<Rightarrow> string \<Rightarrow> string \<Rightarrow> string" where
  "replace_all c r s = concat (map (\<lambda>x. if x = c then r else [x]) s)"

definition escapeHtml :: "string \<Rightarrow> string" where
  "escapeHtml s =
     replace_all (CHR ''>'') ''&gt;''
       (replace_all (CHR ''<'') ''&lt;''
         (replace_all (CHR ''&'') ''&amp;'' s))"

text \<open>The text the fallback branch reads: \<^verbatim>\<open>child.getText ? child.getText() : ...\<close>. A table
  has \<^verbatim>\<open>getText\<close> (its cells, one per line); an inline image and a page break have
  none.\<close>

fun element_getText :: "element \<Rightarrow> string option" where
  "element_getText (PARAGRAPH h t) = Some t"
| "element_getText (LIST_ITEM t) = Some t"
| "element_getText (TABLE rows) = Some (join [CHR 0x0A] (concat rows))"
| "element_getText PAGE_BREAK = None"
| "element_getText (INLINE_IMAGE b) = None"
| "element_getText (OTHER t) = t"

subsection \<open>prependBatchPlain (lines 13--49)\<close>

text \<open>The body of the first loop (lines 21--32): what one message appends to the temporary
  document.\<close>

definition plain_text_of :: "message \<Rightarrow> string" where
  "plain_text_of msg =
     (if msg_plainBody msg \<noteq> [] then msg_plainBody msg
      else if msg_body msg \<noteq> [] then msg_body msg
      else ''(no body)'')"

definition render_plain :: "env \<Rightarrow> message \<Rightarrow> element list" where
  "render_plain env msg =
     [PARAGRAPH HEADING6 ''--- EMAIL START ---'',
      PARAGRAPH NORMAL (''Subject: '' @ (if msg_subject msg = [] then ''(no subject)'' else msg_subject msg)),
      PARAGRAPH NORMAL (''From: '' @ msg_from msg),
      PARAGRAPH NORMAL (''To: '' @ msg_to msg),
      PARAGRAPH NORMAL (''Date: '' @ date_toString env (msg_date msg)),
      PARAGRAPH NORMAL []]
     @ map (PARAGRAPH NORMAL) (split_lines (plain_text_of msg))
     @ [PARAGRAPH NORMAL ''--- EMAIL END ---'', PAGE_BREAK]"

text \<open>The first loop: \<^verbatim>\<open>for (const { message: msg } of messages)\<close>, appending to
  \<^verbatim>\<open>tmpBody\<close>.\<close>

fun compose_batch :: "env \<Rightarrow> item list \<Rightarrow> element list \<Rightarrow> element list" where
  "compose_batch env [] tmpBody = tmpBody"
| "compose_batch env (it # messages) tmpBody =
     compose_batch env messages (tmpBody @ render_plain env (it_message it))"

text \<open>The dispatch of lines 38--46: the element the main body is asked to insert at
  position 0 for one child of the temporary body.\<close>

fun copy_plain :: "element \<Rightarrow> element" where
  "copy_plain (PARAGRAPH h t) = PARAGRAPH NORMAL t"
| "copy_plain (LIST_ITEM t) = LIST_ITEM t"
| "copy_plain PAGE_BREAK = PAGE_BREAK"
| "copy_plain child =
     PARAGRAPH NORMAL
       (case element_getText child of Some t \<Rightarrow> t | None \<Rightarrow> ''[unsupported element]'')"

text \<open>The second loop, \<^verbatim>\<open>for (let i = n - 1; i >= 0; i--)\<close>: the argument is the list of
  children from the last to the first. Nothing catches an exception here.\<close>

fun insert_children_plain ::
  "env \<Rightarrow> element list \<Rightarrow> element list \<Rightarrow> string option \<times> element list" where
  "insert_children_plain env [] mainBody = (None, mainBody)"
| "insert_children_plain env (child # children) mainBody =
     (case Body_insert0 env (copy_plain child) mainBody of
        (Some e, mainBody') \<Rightarrow> (Some e, mainBody')
      | (None, mainBody') \<Rightarrow> insert_children_plain env children mainBody')"

definition prependBatchPlain ::
  "env \<Rightarrow> item list \<Rightarrow> nat \<Rightarrow> world \<Rightarrow> string option \<times> world" where
  "prependBatchPlain env messages consolidatedDocId w =
     (case DocumentApp_openById w consolidatedDocId of
        Inl e \<Rightarrow> (Some e, w)
      | Inr mainDoc \<Rightarrow>
          (let (tmpId, w1) = DocumentApp_create w;
               tmpBody = compose_batch env messages [];
               w2 = update_doc tmpId (\<lambda>d. d\<lparr>doc_body := tmpBody\<rparr>) w1;
               (raised, mainBody) = insert_children_plain env (rev tmpBody) (doc_body mainDoc);
               w3 = update_doc consolidatedDocId (\<lambda>d. d\<lparr>doc_body := mainBody\<rparr>) w2
           in case raised of
                Some e \<Rightarrow> (Some e, w3)
              | None \<Rightarrow> (None, setTrashed tmpId w3)))"

subsection \<open>prependMessageHtmlToDoc (lines 109--185)\<close>

definition fullHtml_of :: "env \<Rightarrow> message \<Rightarrow> string" where
  "fullHtml_of env msg =
     (let nl = [CHR 0x0A] @ ''    '';
          htmlHeader =
            nl @ ''<html><head><meta charset='' @ [CHR 0x22] @ ''utf-8'' @ [CHR 0x22] @ ''></head><body>''
            @ nl @ ''<div><strong>Subject:</strong> '' @ escapeHtml (msg_subject msg) @ ''</div>''
            @ nl @ ''<div><strong>From:</strong> '' @ escapeHtml (msg_from msg) @ ''</div>''
            @ nl @ ''<div><strong>To:</strong> '' @ escapeHtml (msg_to msg) @ ''</div>''
            @ nl @ ''<div><strong>Date:</strong> '' @ escapeHtml (date_toString env (msg_date msg)) @ ''</div>''
            @ nl @ ''<hr/>'';
          bodyHtml =
            (if msg_body msg \<noteq> [] then msg_body msg
             else escapeHtml (if msg_plainBody msg \<noteq> [] then msg_plainBody msg else ''(no body)''))
      in htmlHeader @ bodyHtml @ ''</body></html>'')"

text \<open>\<^verbatim>\<open>convertHtmlToDoc\<close>: \<^verbatim>\<open>Drive.Files.insert\<close> raises, or leaves a new document holding
  the converted content and returns its identifier.\<close>

definition convertHtmlToDoc :: "env \<Rightarrow> string \<Rightarrow> world \<Rightarrow> string + (nat \<times> world)" where
  "convertHtmlToDoc env htmlString w =
     (case html_convert env htmlString of
        Inl e \<Rightarrow> Inl e
      | Inr children \<Rightarrow>
          Inr (length (docs w),
               w\<lparr>docs := docs w @ [Some \<lparr>doc_body = children, doc_trashed = False\<rparr>]\<rparr>))"

text \<open>The table branch (lines 161--169): rows from the last to the first, each flattened
  to one paragraph.\<close>

fun insert_rows ::
  "env \<Rightarrow> string list list \<Rightarrow> element list \<Rightarrow> string option \<times> element list" where
  "insert_rows env [] mainBody = (None, mainBody)"
| "insert_rows env (row # rows) mainBody =
     (case Body_insert0 env (PARAGRAPH NORMAL (join [CHR 0x09] row)) mainBody of
        (Some e, mainBody') \<Rightarrow> (Some e, mainBody')
      | (None, mainBody') \<Rightarrow> insert_rows env rows mainBody')"

text \<open>The \<^verbatim>\<open>try\<close> block of lines 155--177 for one child.\<close>

fun copy_child_html ::
  "env \<Rightarrow> element \<Rightarrow> element list \<Rightarrow> string option \<times> element list" where
  "copy_child_html env (PARAGRAPH h t) mainBody = Body_insert0 env (PARAGRAPH NORMAL t) mainBody"
| "copy_child_html env (LIST_ITEM t) mainBody = Body_insert0 env (LIST_ITEM t) mainBody"
| "copy_child_html env (TABLE rows) mainBody = insert_rows env (rev rows) mainBody"
| "copy_child_html env PAGE_BREAK mainBody = Body_insert0 env PAGE_BREAK mainBody"
| "copy_child_html env (INLINE_IMAGE blob) mainBody = Body_insert0 env (INLINE_IMAGE blob) mainBody"
| "copy_child_html env (OTHER t) mainBody =
     Body_insert0 env
       (PARAGRAPH NORMAL (case t of Some x \<Rightarrow> x | None \<Rightarrow> ''[unsupported element]'')) mainBody"

text \<open>The placeholder of the \<^verbatim>\<open>catch\<close> block, line 179.\<close>

definition insert_failed_marker :: "string \<Rightarrow> element" where
  "insert_failed_marker e = PARAGRAPH NORMAL (''[insert failed: '' @ e @ '']'')"

text \<open>The loop of lines 152--181 over the children from the last to the first, each in
  its \<^verbatim>\<open>try\<close>/\<^verbatim>\<open>catch\<close>; an exception raised by the \<^verbatim>\<open>catch\<close> block itself escapes.\<close>

fun insert_children_html ::
  "env \<Rightarrow> element list \<Rightarrow> element list \<Rightarrow> string option \<times> element list" where
  "insert_children_html env [] mainBody = (None, mainBody)"
| "insert_children_html env (child # children) mainBody =
     (case copy_child_html env child mainBody of
        (None, mainBody') \<Rightarrow> insert_children_html env children mainBody'
      | (Some e, mainBody') \<Rightarrow>
          (case Body_insert0 env (insert_failed_marker e) mainBody' of
             (Some e2, mainBody'') \<Rightarrow> (Some e2, mainBody'')
           | (None, mainBody'') \<Rightarrow> insert_children_html env children mainBody''))"

definition prependMessageHtmlToDoc ::
  "env \<Rightarrow> message \<Rightarrow> nat \<Rightarrow> world \<Rightarrow> string option \<times> world" where
  "prependMessageHtmlToDoc env msg consolidatedDocId w =
     (case convertHtmlToDoc env (fullHtml_of env msg) w of
        Inl e \<Rightarrow> (Some e, w)
      | Inr (tmpDocId, w1) \<Rightarrow>
          (case DocumentApp_openById w1 tmpDocId of
             Inl e \<Rightarrow> (Some e, w1)
           | Inr tmpDoc \<Rightarrow>
               (case DocumentApp_openById w1 consolidatedDocId of
                  Inl e \<Rightarrow> (Some e, w1)
                | Inr mainDoc \<Rightarrow>
                    (let (raised, mainBody) =
                           insert_children_html env (rev (doc_body tmpDoc)) (doc_body mainDoc);
                         w2 = update_doc consolidatedDocId (\<lambda>d. d\<lparr>doc_body := mainBody\<rparr>) w1
                     in case raised of
                          Some e \<Rightarrow> (Some e, w2)
                        | None \<Rightarrow> (None, setTrashed tmpDocId w2)))))"

section \<open>processMessagesToDoc (part\_000, lines 64--152)\<close>

text \<open>
  The per-message loop of the \<^verbatim>\<open>doc_html\<close> branch (lines 130--139). Its state is the
  world, \<^verbatim>\<open>recent\<close> and \<^verbatim>\<open>newestSeen\<close>; the fourth component is a history variable, not
  in the source: the items whose call of \<^verbatim>\<open>prependMessageHtmlToDoc\<close> returned normally,
  in processing order.
\<close>

fun html_loop ::
  "env \<Rightarrow> nat \<Rightarrow> item list \<Rightarrow> world \<times> string list \<times> int \<times> item list
   \<Rightarrow> world \<times> string list \<times> int \<times> item list" where
  "html_loop env docId [] st = st"
| "html_loop env docId (item # rest) (w, recent, newestSeen, inserted) =
     (case prependMessageHtmlToDoc env (it_message item) docId w of
        (None, w') \<Rightarrow>
          html_loop env docId rest
            (w', set_add recent (it_id item),
             (if it_date item > newestSeen then it_date item else newestSeen),
             inserted @ [item])
      | (Some e, w') \<Rightarrow>
          html_loop env docId rest
            (Logger_log (LOG_error (msg_subject (it_message item)) e) w',
             recent, newestSeen, inserted))"

text \<open>Lines 144--151: persist the state.\<close>

definition persist_state :: "int \<Rightarrow> string list \<Rightarrow> world \<Rightarrow> world" where
  "persist_state newestSeen recent w =
     Logger_log (LOG_updated newestSeen (length recent))
       (saveRecentIds recent (w\<lparr>prop_last_iso := Some newestSeen\<rparr>))"

text \<open>
  The result of one execution: the exception that escaped, if any, and the world it
  leaves. \<open>rr_selected\<close> is \<^verbatim>\<open>newMessages\<close>; \<open>rr_inserted\<close> is a history variable: the
  items whose insertion call returned normally (in \<^verbatim>\<open>doc_plain\<close> mode the whole batch when
  \<^verbatim>\<open>prependBatchPlain\<close> returns, none when it raises).
\<close>

record run_result =
  rr_raised :: "string option"
  rr_world :: world
  rr_selected :: "item list"
  rr_inserted :: "item list"

definition processMessagesToDoc :: "string \<Rightarrow> env \<Rightarrow> world \<Rightarrow> run_result" where
  "processMessagesToDoc OUTPUT_MODE env w =
     (let lastISO = watermark w;
          (consolidatedDocId, w1) = ensureConsolidatedDoc w;
          recent = getRecentIds w1;
          lastDate = lastISO;
          w2 = Logger_log (LOG_run_start CONSOLIDATE_LABEL OUTPUT_MODE lastISO consolidatedDocId) w1;
          threads = GmailApp_search env (''label:'' @ CONSOLIDATE_LABEL) 0 MAX_MESSAGES_PER_RUN;
          totalMsgsSeen = fst (scan_threads lastDate recent threads (0, []));
          newMessages = select_newMessages threads lastDate recent;
          w3 = Logger_log (LOG_scanned (length threads) totalMsgsSeen (length newMessages)) w2
      in case newMessages of
           [] \<Rightarrow>
             \<lparr>rr_raised = None, rr_world = Logger_log LOG_no_new w3,
              rr_selected = [], rr_inserted = []\<rparr>
         | newest # others \<Rightarrow>
             (let w4 = Logger_log (LOG_newest_oldest (it_date newest) (it_date (last newMessages)))
                         (Logger_log (LOG_samples (map it_subj (take 5 newMessages))) w3)
              in if OUTPUT_MODE = ''doc_plain'' then
                   (case prependBatchPlain env newMessages consolidatedDocId
                           (Logger_log (LOG_inserting_plain (length newMessages) consolidatedDocId) w4) of
                      (Some e, w5) \<Rightarrow>
                        \<lparr>rr_raised = Some e, rr_world = w5,
                         rr_selected = newMessages, rr_inserted = []\<rparr>
                    | (None, w5) \<Rightarrow>
                        \<lparr>rr_raised = None,
                         rr_world = persist_state (it_date newest)
                                      (foldl set_add recent (map it_id newMessages)) w5,
                         rr_selected = newMessages, rr_inserted = newMessages\<rparr>)
                 else if OUTPUT_MODE = ''doc_html'' then
                   (case html_loop env consolidatedDocId newMessages
                           (Logger_log (LOG_inserting_html (length newMessages) consolidatedDocId) w4,
                            recent, lastDate, []) of
                      (w5, recent', newestSeen, inserted) \<Rightarrow>
                        \<lparr>rr_raised = None,
                         rr_world = persist_state newestSeen recent' w5,
                         rr_selected = newMessages, rr_inserted = inserted\<rparr>)
                 else
                   \<lparr>rr_raised = Some (''Error: Unknown OUTPUT_MODE: '' @ OUTPUT_MODE), rr_world = w4,
                    rr_selected = newMessages, rr_inserted = []\<rparr>))"

section \<open>Vocabulary of the properties\<close>

text \<open>
  Predicates and functions used to state the properties below. None of them is part of
  the program.
\<close>

text \<open>The persisted handle resolves to a live, non-trashed document.\<close>

definition handle_live :: "world \<Rightarrow> bool" where
  "handle_live w =
     (case prop_consolidated_doc w of
        None \<Rightarrow> False
      | Some i \<Rightarrow> (case lookup_doc w i of None \<Rightarrow> False | Some d \<Rightarrow> \<not> doc_trashed d))"

text \<open>Appending entries to the execution log.\<close>

definition add_logs :: "log_entry list \<Rightarrow> world \<Rightarrow> world" where
  "add_logs es w = w\<lparr>logger := logger w @ es\<rparr>"

text \<open>The batch an execution selects: lines 84--100 on the search result, with the
  watermark and the recency set read at the start.\<close>

definition run_batch :: "env \<Rightarrow> world \<Rightarrow> item list" where
  "run_batch env w =
     select_newMessages
       (GmailApp_search env (''label:'' @ CONSOLIDATE_LABEL) 0 MAX_MESSAGES_PER_RUN)
       (watermark w) (getRecentIds w)"


text \<open>What one message of the batch contributes to the destination: the copy of its
  rendering.\<close>

definition plain_rendering :: "env \<Rightarrow> item \<Rightarrow> element list" where
  "plain_rendering env it = map copy_plain (render_plain env (it_message it))"

text \<open>The persisted properties of two worlds agree.\<close>

definition same_props :: "world \<Rightarrow> world \<Rightarrow> bool" where
  "same_props w w' =
     (prop_last_iso w' = prop_last_iso w \<and> prop_consolidated_doc w' = prop_consolidated_doc w
      \<and> prop_recent_ids w' = prop_recent_ids w)"

text \<open>The exception \<^verbatim>\<open>prependMessageHtmlToDoc\<close> raises for a message whose destination
  exists (\<open>None\<close>: it returns normally). It depends on the services only.\<close>

definition html_outcome :: "env \<Rightarrow> message \<Rightarrow> string option" where
  "html_outcome env msg =
     (case html_convert env (fullHtml_of env msg) of
        Inl e \<Rightarrow> Some e
      | Inr children \<Rightarrow> fst (insert_children_html env (rev children) []))"

text \<open>The log entries the loop writes for a batch: one per message that raises, in
  processing order.\<close>

definition error_entries :: "env \<Rightarrow> item list \<Rightarrow> log_entry list" where
  "error_entries env items =
     concat (map (\<lambda>it. case html_outcome env (it_message it) of
                          None \<Rightarrow> []
                        | Some e \<Rightarrow> [LOG_error (msg_subject (it_message it)) e]) items)"

text \<open>The messages of a batch that \<^verbatim>\<open>prependMessageHtmlToDoc\<close> accepts.\<close>

definition html_accepted :: "env \<Rightarrow> item list \<Rightarrow> item list" where
  "html_accepted env items = filter (\<lambda>it. html_outcome env (it_message it) = None) items"

text \<open>The backend accepts every element of the plain rendering of a batch.\<close>

definition plain_accepted :: "env \<Rightarrow> item list \<Rightarrow> bool" where
  "plain_accepted env items =
     (\<forall>it \<in> set items. \<forall>el \<in> set (plain_rendering env it). insert_error env el = None)"

text \<open>The size of the persisted recency array.\<close>

definition recent_size :: "world \<Rightarrow> nat" where
  "recent_size w = (case prop_recent_ids w of None \<Rightarrow> 0 | Some arr \<Rightarrow> length arr)"

text \<open>The operations an operator or a trigger can invoke, and a sequence of them.\<close>

datatype operation = Run string env | Init | Reset

fun apply_op :: "operation \<Rightarrow> world \<Rightarrow> world" where
  "apply_op (Run mode env) w = rr_world (processMessagesToDoc mode env w)"
| "apply_op Init w = gtd_init w"
| "apply_op Reset w = gtd_resetForReimport w"

definition apply_ops :: "operation list \<Rightarrow> world \<Rightarrow> world" where
  "apply_ops ops w = foldl (\<lambda>w op. apply_op op w) w ops"





section \<open>Sample states and environments\<close>

text \<open>The state before the first execution: no property set, no document, empty log.\<close>

definition world0 :: world where
  "world0 = \<lparr>prop_last_iso = None, prop_consolidated_doc = None, prop_recent_ids = None,
             docs = [], logger = []\<rparr>"

text \<open>Services with an empty mailbox, a backend that accepts every insertion and a
  conversion that yields an empty document.\<close>

definition env0 :: env where
  "env0 = \<lparr>gmail_threads = (\<lambda>q. []), insert_error = (\<lambda>el. None),
            html_convert = (\<lambda>h. Inr []), date_toString = (\<lambda>d. [])\<rparr>"

text \<open>201 messages, all newer than the epoch, newest first, and a mailbox holding them in
  three labelled threads of 67 messages each.\<close>

definition long_thread :: "message list" where
  "long_thread =
     map (\<lambda>n. \<lparr>msg_id = replicate (Suc n) (CHR ''m''), msg_date = 201 - int n, msg_subject = [],
               msg_from = [], msg_to = [], msg_plainBody = [], msg_body = []\<rparr>) [0..<201]"

definition long_threads :: "message list list" where
  "long_threads = [take 67 long_thread, take 67 (drop 67 long_thread), drop 134 long_thread]"

definition env_long :: env where
  "env_long = env0\<lparr>gmail_threads := (\<lambda>q. long_threads)\<rparr>"

text \<open>Three messages, two of them with the same timestamp, and a state with a live
  document holding one old paragraph.\<close>

definition msg_a :: message where
  "msg_a = \<lparr>msg_id = ''a'', msg_date = 2, msg_subject = ''A'', msg_from = ''x'', msg_to = ''y'',
            msg_plainBody = ''hi'', msg_body = []\<rparr>"

definition msg_b :: message where
  "msg_b = \<lparr>msg_id = ''b'', msg_date = 1, msg_subject = [], msg_from = ''x'', msg_to = ''y'',
            msg_plainBody = [], msg_body = []\<rparr>"

definition msg_c :: message where
  "msg_c = \<lparr>msg_id = ''c'', msg_date = 2, msg_subject = ''C'', msg_from = ''x'', msg_to = ''y'',
            msg_plainBody = ''ho'', msg_body = []\<rparr>"

definition world1 :: world where
  "world1 = \<lparr>prop_last_iso = None, prop_consolidated_doc = Some 0, prop_recent_ids = None,
             docs = [Some \<lparr>doc_body = [PARAGRAPH NORMAL ''old''], doc_trashed = False\<rparr>],
             logger = []\<rparr>"

text \<open>A mailbox with one thread holding \<open>msg_b\<close> then \<open>msg_a\<close>; every insertion succeeds and
  every HTML conversion raises.\<close>

definition env_ab :: env where
  "env_ab = \<lparr>gmail_threads = (\<lambda>q. [[msg_b, msg_a]]), insert_error = (\<lambda>el. None),
             html_convert = (\<lambda>h. Inl ''Exception: conversion failed''),
             date_toString = (\<lambda>d. [])\<rparr>"


text \<open>A mailbox with one thread holding \<open>msg_b\<close> then \<open>msg_a\<close>, in which the HTML conversion
  succeeds for \<open>msg_a\<close> only.\<close>

definition env_mix :: env where
  "env_mix = \<lparr>gmail_threads = (\<lambda>q. [[msg_b, msg_a]]), insert_error = (\<lambda>el. None),
              html_convert = (\<lambda>h. if CHR ''A'' \<in> set h then Inr [PARAGRAPH NORMAL ''hello'']
                                    else Inl ''Exception: conversion failed''),
              date_toString = (\<lambda>d. [])\<rparr>"


section \<open>Properties of the containers\<close>

lemma set_js_insert: "set (js_insert cmp x ys) = insert x (set ys)"
  by (induction ys) auto

lemma mset_js_insert: "mset (js_insert cmp x ys) = add_mset x (mset ys)"
  by (induction ys) auto

lemma mset_js_sort: "mset (js_sort cmp xs) = mset xs"
  by (induction xs) (simp_all add: js_sort_def mset_js_insert)

lemma set_js_sort: "set (js_sort cmp xs) = set xs"
  using mset_js_sort [of cmp xs] by (metis set_mset_mset)

lemma length_js_sort: "length (js_sort cmp xs) = length xs"
  using mset_js_sort [of cmp xs] by (metis size_mset)

lemma js_sort_Nil_iff: "js_sort cmp xs = [] \<longleftrightarrow> xs = []"
  using length_js_sort [of cmp xs] by (metis length_0_conv)

lemma sorted_js_insert_newest:
  "sorted_wrt (\<lambda>a b. it_date a \<ge> it_date b) ys \<Longrightarrow>
   sorted_wrt (\<lambda>a b. it_date a \<ge> it_date b) (js_insert newest_first x ys)"
proof (induction ys)
  case Nil
  then show ?case by simp
next
  case (Cons y ys)
  show ?case
  proof (cases "newest_first x y \<le> 0")
    case True
    then have "it_date y \<le> it_date x" by (simp add: newest_first_def)
    with Cons.prems True show ?thesis by fastforce
  next
    case False
    then have "it_date x \<le> it_date y" by (simp add: newest_first_def)
    with Cons False show ?thesis by (auto simp: set_js_insert)
  qed
qed

lemma sorted_js_sort_newest:
  "sorted_wrt (\<lambda>a b. it_date a \<ge> it_date b) (js_sort newest_first xs)"
  by (induction xs) (simp_all add: js_sort_def sorted_js_insert_newest)

lemma filter_js_insert_newest:
  "sorted_wrt (\<lambda>a b. it_date a \<ge> it_date b) ys \<Longrightarrow>
   filter (\<lambda>i. it_date i = t) (js_insert newest_first x ys) =
   filter (\<lambda>i. it_date i = t) (x # ys)"
proof (induction ys)
  case Nil
  then show ?case by simp
next
  case (Cons y ys)
  show ?case
  proof (cases "newest_first x y \<le> 0")
    case True
    then show ?thesis by simp
  next
    case False
    then have lt: "it_date x < it_date y" by (simp add: newest_first_def)
    from Cons.prems have sorted: "sorted_wrt (\<lambda>a b. it_date a \<ge> it_date b) ys"
      and below: "\<forall>z \<in> set ys. it_date z \<le> it_date y" by simp_all
    have ih: "filter (\<lambda>i. it_date i = t) (js_insert newest_first x ys) =
              filter (\<lambda>i. it_date i = t) (x # ys)"
      using Cons.IH sorted by blast
    show ?thesis
    proof (cases "it_date y = t")
      case yt: True
      then have "it_date x \<noteq> t" using lt by simp
      with False yt ih show ?thesis by simp
    next
      case yt: False
      with False ih show ?thesis by simp
    qed
  qed
qed

lemma filter_js_sort_newest:
  "filter (\<lambda>i. it_date i = t) (js_sort newest_first xs) = filter (\<lambda>i. it_date i = t) xs"
proof (induction xs)
  case Nil
  then show ?case by (simp add: js_sort_def)
next
  case (Cons x xs)
  have "filter (\<lambda>i. it_date i = t) (js_sort newest_first (x # xs)) =
        filter (\<lambda>i. it_date i = t) (x # js_sort newest_first xs)"
    using filter_js_insert_newest [OF sorted_js_sort_newest, of t x xs]
    by (simp add: js_sort_def)
  with Cons show ?case by simp
qed

section \<open>Properties of the selection\<close>

lemma scan_messages_eq:
  "scan_messages lastDate recent msgs acc =
   acc @ map mk_item (filter (eligible lastDate recent) msgs)"
  by (induction msgs arbitrary: acc) simp_all

lemma scan_threads_eq:
  "scan_threads lastDate recent ts (n, acc) =
   (n + length (concat ts), acc @ map mk_item (filter (eligible lastDate recent) (concat ts)))"
  by (induction ts arbitrary: n acc) (simp_all add: scan_messages_eq)

lemma select_newMessages_eq:
  "select_newMessages threads lastDate recent =
   js_sort newest_first (map mk_item (filter (eligible lastDate recent) (concat threads)))"
  by (simp add: select_newMessages_def scan_threads_eq)

text \<open>
  C1. The selection step keeps exactly the messages of the scanned threads whose
  timestamp is strictly greater than the watermark and whose identifier is not in the
  recency set, each once per occurrence in the scan; the batch is in descending
  timestamp order; and the messages sharing one timestamp stand in the order in which
  the scan met them.
\<close>

theorem C1_selection:
  "mset (map it_message (select_newMessages threads W R)) =
     filter_mset (\<lambda>m. msg_date m > W \<and> msg_id m \<notin> set R) (mset (concat threads))
   \<and> sorted_wrt (\<lambda>a b. it_date a \<ge> it_date b) (select_newMessages threads W R)
   \<and> filter (\<lambda>i. it_date i = t) (select_newMessages threads W R) =
       map mk_item (filter (\<lambda>m. msg_date m = t \<and> msg_date m > W \<and> msg_id m \<notin> set R)
         (concat threads))"
proof -
  let ?elig = "filter (eligible W R) (concat threads)"
  have el: "eligible W R = (\<lambda>m. msg_date m > W \<and> msg_id m \<notin> set R)"
    by (rule ext) (simp add: eligible_def set_has_def)
  have msgs: "map it_message (map mk_item ?elig) = ?elig"
    by (induction ?elig) (simp_all add: mk_item_def comp_def)
  have "mset (map it_message (select_newMessages threads W R)) = mset ?elig"
    using mset_js_sort [of newest_first "map mk_item ?elig"] msgs
    by (metis mset_map select_newMessages_eq)
  then have part1: "mset (map it_message (select_newMessages threads W R)) =
      filter_mset (\<lambda>m. msg_date m > W \<and> msg_id m \<notin> set R) (mset (concat threads))"
    by (simp add: el)
  have part2: "sorted_wrt (\<lambda>a b. it_date a \<ge> it_date b) (select_newMessages threads W R)"
    by (simp add: select_newMessages_eq sorted_js_sort_newest)
  have "filter (\<lambda>i. it_date i = t) (select_newMessages threads W R) =
        filter (\<lambda>i. it_date i = t) (map mk_item ?elig)"
    by (simp add: select_newMessages_eq filter_js_sort_newest)
  also have "\<dots> = map mk_item (filter (\<lambda>m. msg_date m = t) ?elig)"
    by (simp add: filter_map comp_def mk_item_def)
  also have "\<dots> = map mk_item (filter (\<lambda>m. msg_date m = t \<and> msg_date m > W \<and> msg_id m \<notin> set R)
         (concat threads))"
    by (simp add: el conj_ac)
  finally show ?thesis using part1 part2 by blast
qed

text \<open>
  Two threads, watermark 0, recency set \<open>{b}\<close>: the message \<open>b\<close> is left out and the two
  messages with timestamp 2 come out in scan order.
\<close>

theorem C1_selection_witness:
  "select_newMessages [[msg_b, msg_a], [msg_c]] 0 [''b''] = [mk_item msg_a, mk_item msg_c]
   \<and> sorted_wrt (\<lambda>a b. it_date a \<ge> it_date b) (select_newMessages [[msg_b, msg_a], [msg_c]] 0 [''b''])
   \<and> filter (\<lambda>i. it_date i = 2) (select_newMessages [[msg_b, msg_a], [msg_c]] 0 [''b'']) =
       [mk_item msg_a, mk_item msg_c]"
proof -
  have sel: "select_newMessages [[msg_b, msg_a], [msg_c]] 0 [''b''] = [mk_item msg_a, mk_item msg_c]"
    by (simp add: select_newMessages_eq eligible_def set_has_def msg_a_def msg_b_def msg_c_def
        js_sort_def newest_first_def mk_item_def)
  have "filter (\<lambda>m. msg_date m = 2 \<and> msg_date m > 0 \<and> msg_id m \<notin> set [''b''])
          (concat [[msg_b, msg_a], [msg_c]]) = [msg_a, msg_c]"
    by (simp add: msg_a_def msg_b_def msg_c_def)
  with C1_selection [of "[[msg_b, msg_a], [msg_c]]" 0 "[''b'']" 2] sel show ?thesis by simp
qed

section \<open>The reset operation\<close>

text \<open>
  C8. From any state, \<^verbatim>\<open>gtd_resetForReimport\<close> sets the persisted watermark to the epoch
  start (1970-01-01T00:00:00Z, timestamp 0), removes the persisted recency set (which then
  reads as the empty set), and leaves the persisted document handle and every document
  as they were. It is idempotent: a second reset changes nothing but the execution log.
\<close>

theorem C8_reset:
  "watermark (gtd_resetForReimport w) = EPOCH
   \<and> prop_last_iso (gtd_resetForReimport w) = Some 0
   \<and> prop_recent_ids (gtd_resetForReimport w) = None
   \<and> getRecentIds (gtd_resetForReimport w) = []
   \<and> prop_consolidated_doc (gtd_resetForReimport w) = prop_consolidated_doc w
   \<and> docs (gtd_resetForReimport w) = docs w
   \<and> (gtd_resetForReimport (gtd_resetForReimport w))\<lparr>logger := []\<rparr>
       = (gtd_resetForReimport w)\<lparr>logger := []\<rparr>"
  by (simp add: gtd_resetForReimport_def Logger_log_def watermark_def getRecentIds_def EPOCH_def)

section \<open>The document guarantor\<close>

lemma ensure_live:
  "handle_live w \<Longrightarrow> \<exists>i. prop_consolidated_doc w = Some i \<and> ensureConsolidatedDoc w = (i, w)"
  by (auto simp: handle_live_def ensureConsolidatedDoc_def DriveApp_getFileById_def
      split: option.splits)

lemma ensure_stale:
  "\<not> handle_live w \<Longrightarrow>
   ensureConsolidatedDoc w =
     (length (docs w),
      Logger_log (LOG_created (length (docs w)))
        (w\<lparr>docs := docs w @ [Some \<lparr>doc_body = [], doc_trashed = False\<rparr>],
           prop_consolidated_doc := Some (length (docs w))\<rparr>))"
  by (auto simp: handle_live_def ensureConsolidatedDoc_def DriveApp_getFileById_def
      DocumentApp_create_def split: option.splits)

lemma ensure_makes_live: "handle_live (snd (ensureConsolidatedDoc w))"
proof (cases "handle_live w")
  case True
  with ensure_live [OF True] show ?thesis by auto
next
  case False
  show ?thesis
    by (simp add: ensure_stale [OF False] handle_live_def Logger_log_def lookup_doc_def)
qed

lemma ensure_persists:
  "prop_consolidated_doc (snd (ensureConsolidatedDoc w)) = Some (fst (ensureConsolidatedDoc w))"
proof (cases "handle_live w")
  case True
  with ensure_live [OF True] show ?thesis by auto
next
  case False
  show ?thesis
    by (simp add: ensure_stale [OF False] Logger_log_def)
qed

text \<open>
  C6. When the persisted handle resolves to a live, non-trashed document,
  \<^verbatim>\<open>ensureConsolidatedDoc_\<close> returns it and changes nothing. Otherwise (no handle, a
  trashed document, or a handle whose resolution raises) it creates a new empty document,
  persists its handle and returns it. A second call right after the first returns the
  same handle and leaves the world exactly as the first call left it: no second
  creation.
\<close>

theorem C6_ensure:
  "(handle_live w \<longrightarrow>
      (\<exists>i. prop_consolidated_doc w = Some i \<and> ensureConsolidatedDoc w = (i, w)))
   \<and> (\<not> handle_live w \<longrightarrow>
        ensureConsolidatedDoc w =
          (length (docs w),
           Logger_log (LOG_created (length (docs w)))
             (w\<lparr>docs := docs w @ [Some \<lparr>doc_body = [], doc_trashed = False\<rparr>],
                prop_consolidated_doc := Some (length (docs w))\<rparr>)))
   \<and> ensureConsolidatedDoc (snd (ensureConsolidatedDoc w)) =
        (fst (ensureConsolidatedDoc w), snd (ensureConsolidatedDoc w))"
proof -
  obtain i where "prop_consolidated_doc (snd (ensureConsolidatedDoc w)) = Some i"
    and "ensureConsolidatedDoc (snd (ensureConsolidatedDoc w)) = (i, snd (ensureConsolidatedDoc w))"
    using ensure_live [OF ensure_makes_live [of w]] by blast
  then have "ensureConsolidatedDoc (snd (ensureConsolidatedDoc w)) =
        (fst (ensureConsolidatedDoc w), snd (ensureConsolidatedDoc w))"
    by (simp add: ensure_persists)
  then show ?thesis using ensure_live ensure_stale by blast
qed

text \<open>On the initial state: the first call creates document 0, the second returns it and
  creates nothing.\<close>

theorem C6_ensure_witness:
  "\<not> handle_live world0
   \<and> ensureConsolidatedDoc world0 =
       (0, world0\<lparr>prop_consolidated_doc := Some 0,
                  docs := [Some \<lparr>doc_body = [], doc_trashed = False\<rparr>],
                  logger := [LOG_created 0]\<rparr>)
   \<and> handle_live (snd (ensureConsolidatedDoc world0))
   \<and> ensureConsolidatedDoc (snd (ensureConsolidatedDoc world0)) =
       (0, world0\<lparr>prop_consolidated_doc := Some 0,
                  docs := [Some \<lparr>doc_body = [], doc_trashed = False\<rparr>],
                  logger := [LOG_created 0]\<rparr>)"
proof -
  have stale: "\<not> handle_live world0" by (simp add: handle_live_def world0_def)
  have first: "ensureConsolidatedDoc world0 =
       (0, world0\<lparr>prop_consolidated_doc := Some 0,
                  docs := [Some \<lparr>doc_body = [], doc_trashed = False\<rparr>],
                  logger := [LOG_created 0]\<rparr>)"
    using C6_ensure [of world0] stale by (simp add: world0_def Logger_log_def)
  have live: "handle_live (snd (ensureConsolidatedDoc world0))"
    unfolding first by (simp add: handle_live_def world0_def lookup_doc_def)
  show ?thesis
    using stale first live C6_ensure [of "snd (ensureConsolidatedDoc world0)"] by simp
qed

section \<open>The phases of one execution\<close>

lemma Logger_log_add_logs: "Logger_log e w = add_logs [e] w"
  by (simp add: Logger_log_def add_logs_def)

lemma add_logs_add_logs: "add_logs es (add_logs fs w) = add_logs (fs @ es) w"
  by (simp add: add_logs_def)

lemma add_logs_fields [simp]:
  "prop_last_iso (add_logs es w) = prop_last_iso w"
  "prop_consolidated_doc (add_logs es w) = prop_consolidated_doc w"
  "prop_recent_ids (add_logs es w) = prop_recent_ids w"
  "docs (add_logs es w) = docs w"
  by (simp_all add: add_logs_def)

lemma ensure_fields:
  "prop_last_iso (snd (ensureConsolidatedDoc w)) = prop_last_iso w"
  "prop_recent_ids (snd (ensureConsolidatedDoc w)) = prop_recent_ids w"
  by (cases "handle_live w"; use ensure_live [of w] in \<open>auto simp: ensure_stale Logger_log_def\<close>)+

lemma ensure_reads:
  "watermark (snd (ensureConsolidatedDoc w)) = watermark w"
  "getRecentIds (snd (ensureConsolidatedDoc w)) = getRecentIds w"
  by (simp_all add: watermark_def getRecentIds_def ensure_fields)

lemma run_empty:
  assumes "run_batch env w = []"
  shows "\<exists>es. processMessagesToDoc mode env w =
           \<lparr>rr_raised = None, rr_world = add_logs es (snd (ensureConsolidatedDoc w)),
            rr_selected = [], rr_inserted = []\<rparr>"
  unfolding processMessagesToDoc_def Let_def split_def ensure_reads
  unfolding run_batch_def [symmetric] assms
  unfolding Logger_log_add_logs add_logs_add_logs
  by (simp only: list.case) (intro exI, rule refl)

lemma run_plain:
  assumes "run_batch env w = newest # others"
  shows "\<exists>es. processMessagesToDoc ''doc_plain'' env w =
           (case prependBatchPlain env (newest # others) (fst (ensureConsolidatedDoc w))
                   (add_logs es (snd (ensureConsolidatedDoc w))) of
              (Some e, w5) \<Rightarrow>
                \<lparr>rr_raised = Some e, rr_world = w5,
                 rr_selected = newest # others, rr_inserted = []\<rparr>
            | (None, w5) \<Rightarrow>
                \<lparr>rr_raised = None,
                 rr_world = persist_state (it_date newest)
                              (foldl set_add (getRecentIds w) (map it_id (newest # others))) w5,
                 rr_selected = newest # others, rr_inserted = newest # others\<rparr>)"
  unfolding processMessagesToDoc_def Let_def split_def ensure_reads
  unfolding run_batch_def [symmetric] assms
  unfolding Logger_log_add_logs add_logs_add_logs
  by (simp only: list.case if_True simp_thms) (intro exI, rule refl)

lemma run_html:
  assumes "run_batch env w = newest # others"
  shows "\<exists>es. processMessagesToDoc ''doc_html'' env w =
           (case html_loop env (fst (ensureConsolidatedDoc w)) (newest # others)
                   (add_logs es (snd (ensureConsolidatedDoc w)), getRecentIds w, watermark w, []) of
              (w5, recent', newestSeen, inserted) \<Rightarrow>
                \<lparr>rr_raised = None, rr_world = persist_state newestSeen recent' w5,
                 rr_selected = newest # others, rr_inserted = inserted\<rparr>)"
proof -
  have ne: "(''doc_html'' = ''doc_plain'') = False" by simp
  show ?thesis
    unfolding processMessagesToDoc_def Let_def split_def ensure_reads
    unfolding run_batch_def [symmetric] assms
    unfolding Logger_log_add_logs add_logs_add_logs
    by (simp only: list.case ne if_False if_True simp_thms) (intro exI, rule refl)
qed

lemma run_unknown:
  assumes "run_batch env w = newest # others" "mode \<noteq> ''doc_plain''" "mode \<noteq> ''doc_html''"
  shows "\<exists>es. processMessagesToDoc mode env w =
           \<lparr>rr_raised = Some (''Error: Unknown OUTPUT_MODE: '' @ mode),
            rr_world = add_logs es (snd (ensureConsolidatedDoc w)),
            rr_selected = newest # others, rr_inserted = []\<rparr>"
proof -
  have ne: "(mode = ''doc_plain'') = False" "(mode = ''doc_html'') = False"
    using assms by simp_all
  show ?thesis
    unfolding processMessagesToDoc_def Let_def split_def ensure_reads
    unfolding run_batch_def [symmetric] assms(1)
    unfolding Logger_log_add_logs add_logs_add_logs
    by (simp only: list.case ne if_False) (intro exI, rule refl)
qed




lemma run_selected: "rr_selected (processMessagesToDoc mode env w) = run_batch env w"
proof (cases "run_batch env w")
  case Nil
  with run_empty [OF Nil, of mode] show ?thesis by auto
next
  case (Cons newest others)
  consider "mode = ''doc_plain''" | "mode = ''doc_html''" | "mode \<noteq> ''doc_plain''" "mode \<noteq> ''doc_html''"
    by blast
  then show ?thesis
  proof cases
    case 1
    from run_plain [OF Cons] obtain es where
      eq: "processMessagesToDoc ''doc_plain'' env w =
           (case prependBatchPlain env (newest # others) (fst (ensureConsolidatedDoc w))
                   (add_logs es (snd (ensureConsolidatedDoc w))) of
              (Some e, w5) \<Rightarrow>
                \<lparr>rr_raised = Some e, rr_world = w5,
                 rr_selected = newest # others, rr_inserted = []\<rparr>
            | (None, w5) \<Rightarrow>
                \<lparr>rr_raised = None,
                 rr_world = persist_state (it_date newest)
                              (foldl set_add (getRecentIds w) (map it_id (newest # others))) w5,
                 rr_selected = newest # others, rr_inserted = newest # others\<rparr>)"
      by blast
    show ?thesis unfolding 1 eq Cons by (simp split: prod.splits option.splits)
  next
    case 2
    from run_html [OF Cons] obtain es where
      eq: "processMessagesToDoc ''doc_html'' env w =
           (case html_loop env (fst (ensureConsolidatedDoc w)) (newest # others)
                   (add_logs es (snd (ensureConsolidatedDoc w)), getRecentIds w, watermark w, []) of
              (w5, recent', newestSeen, inserted) \<Rightarrow>
                \<lparr>rr_raised = None, rr_world = persist_state newestSeen recent' w5,
                 rr_selected = newest # others, rr_inserted = inserted\<rparr>)"
      by blast
    show ?thesis unfolding 2 eq Cons by (simp split: prod.splits)
  next
    case 3
    with run_unknown [OF Cons 3] Cons show ?thesis by auto
  qed
qed

section \<open>Executions that select nothing\<close>

lemma run_batch_eq:
  "run_batch env w =
   js_sort newest_first (map mk_item (filter (eligible (watermark w) (getRecentIds w))
     (concat (take MAX_MESSAGES_PER_RUN (gmail_threads env (''label:'' @ CONSOLIDATE_LABEL))))))"
  by (simp add: run_batch_def select_newMessages_eq GmailApp_search_def)

lemma run_batch_env0: "run_batch env0 w = []"
  by (simp add: run_batch_eq env0_def js_sort_def)

text \<open>
  C5, as stated, fails: before the first execution no handle is persisted; an execution
  that selects nothing still calls the guarantor first (line 70), which creates a
  document and persists its handle.
\<close>

theorem C5_counterexample:
  "rr_selected (processMessagesToDoc ''doc_plain'' env0 world0) = []
   \<and> prop_consolidated_doc world0 = None
   \<and> prop_consolidated_doc (rr_world (processMessagesToDoc ''doc_plain'' env0 world0)) = Some 0"
proof -
  obtain es where eq: "processMessagesToDoc ''doc_plain'' env0 world0 =
           \<lparr>rr_raised = None, rr_world = add_logs es (snd (ensureConsolidatedDoc world0)),
            rr_selected = [], rr_inserted = []\<rparr>"
    using run_empty [OF run_batch_env0] by blast
  have stale: "\<not> handle_live world0" by (simp add: handle_live_def world0_def)
  show ?thesis
    unfolding eq by (simp add: ensure_stale [OF stale] Logger_log_def) (simp add: world0_def)
qed

text \<open>
  C5. An execution of \<^verbatim>\<open>processMessagesToDoc\<close> that selects no message returns normally
  and inserts nothing; the persisted watermark and the persisted recency set are
  unchanged, and no existing document is changed. The persisted handle is unchanged when
  it resolves to a live document; otherwise the guarantor, called before the scan, has
  created a new empty document and persisted its handle.
\<close>

theorem C5_no_selection:
  assumes "rr_selected (processMessagesToDoc mode env w) = []"
  shows "rr_raised (processMessagesToDoc mode env w) = None
   \<and> rr_inserted (processMessagesToDoc mode env w) = []
   \<and> prop_last_iso (rr_world (processMessagesToDoc mode env w)) = prop_last_iso w
   \<and> prop_recent_ids (rr_world (processMessagesToDoc mode env w)) = prop_recent_ids w
   \<and> (if handle_live w
       then prop_consolidated_doc (rr_world (processMessagesToDoc mode env w)) = prop_consolidated_doc w
            \<and> docs (rr_world (processMessagesToDoc mode env w)) = docs w
       else prop_consolidated_doc (rr_world (processMessagesToDoc mode env w)) = Some (length (docs w))
            \<and> docs (rr_world (processMessagesToDoc mode env w)) =
                docs w @ [Some \<lparr>doc_body = [], doc_trashed = False\<rparr>])"
proof -
  from assms have "run_batch env w = []" by (simp add: run_selected)
  then obtain es where eq: "processMessagesToDoc mode env w =
           \<lparr>rr_raised = None, rr_world = add_logs es (snd (ensureConsolidatedDoc w)),
            rr_selected = [], rr_inserted = []\<rparr>"
    using run_empty by blast
  show ?thesis
  proof (cases "handle_live w")
    case True
    then obtain i where "ensureConsolidatedDoc w = (i, w)" using ensure_live by blast
    with True show ?thesis by (simp add: eq)
  next
    case False
    then show ?thesis by (simp add: eq ensure_stale Logger_log_def)
  qed
qed

text \<open>
  With a live handle and an empty mailbox the execution leaves the properties and the
  documents as they were.
\<close>

theorem C5_no_selection_witness:
  "rr_selected (processMessagesToDoc ''doc_plain'' env0 (snd (ensureConsolidatedDoc world0))) = []
   \<and> handle_live (snd (ensureConsolidatedDoc world0))
   \<and> prop_consolidated_doc (rr_world (processMessagesToDoc ''doc_plain'' env0 (snd (ensureConsolidatedDoc world0))))
       = Some 0
   \<and> docs (rr_world (processMessagesToDoc ''doc_plain'' env0 (snd (ensureConsolidatedDoc world0))))
       = [Some \<lparr>doc_body = [], doc_trashed = False\<rparr>]
   \<and> prop_last_iso (rr_world (processMessagesToDoc ''doc_plain'' env0 (snd (ensureConsolidatedDoc world0))))
       = None
   \<and> prop_recent_ids (rr_world (processMessagesToDoc ''doc_plain'' env0 (snd (ensureConsolidatedDoc world0))))
       = None"
proof -
  let ?w = "snd (ensureConsolidatedDoc world0)"
  have sel: "rr_selected (processMessagesToDoc ''doc_plain'' env0 ?w) = []"
    by (simp add: run_selected run_batch_env0)
  have stale: "\<not> handle_live world0" by (simp add: handle_live_def world0_def)
  have w: "?w = \<lparr>prop_last_iso = None, prop_consolidated_doc = Some 0, prop_recent_ids = None,
             docs = [Some \<lparr>doc_body = [], doc_trashed = False\<rparr>], logger = [LOG_created 0]\<rparr>"
    by (simp add: ensure_stale [OF stale] Logger_log_def) (simp add: world0_def)
  show ?thesis
    using C5_no_selection [OF sel] sel ensure_makes_live [of world0] by (simp add: w)
qed

section \<open>The per-run cap\<close>

lemma long_thread_eligible: "filter (eligible 0 []) long_thread = long_thread"
  unfolding filter_id_conv by (auto simp: long_thread_def eligible_def set_has_def)

lemma concat_long_threads: "concat (take 200 long_threads) = long_thread"
proof -
  have "drop 134 long_thread = drop 67 (drop 67 long_thread)" by simp
  then have "take 67 (drop 67 long_thread) @ drop 134 long_thread = drop 67 long_thread"
    by (simp only: append_take_drop_id)
  then have "take 67 long_thread @ take 67 (drop 67 long_thread) @ drop 134 long_thread = long_thread"
    by (simp only: append_take_drop_id)
  then show ?thesis by (simp add: long_threads_def)
qed

lemma search_long:
  "GmailApp_search env_long (''label:'' @ CONSOLIDATE_LABEL) 0 MAX_MESSAGES_PER_RUN = long_threads"
  by (simp add: GmailApp_search_def env_long_def MAX_MESSAGES_PER_RUN_def long_threads_def)

lemma run_batch_long:
  "run_batch env_long world0 = js_sort newest_first (map mk_item long_thread)"
proof -
  have "gmail_threads env_long (''label:'' @ CONSOLIDATE_LABEL) = long_threads"
    by (simp add: env_long_def)
  then show ?thesis
    unfolding run_batch_eq MAX_MESSAGES_PER_RUN_def
    by (simp only: concat_long_threads)
       (simp add: watermark_def getRecentIds_def world0_def EPOCH_def long_thread_eligible)
qed

text \<open>
  C9, as stated, fails: the cap is passed to \<^verbatim>\<open>GmailApp.search\<close>, which counts threads.
  Three labelled threads holding 201 messages are within the cap, and all 201 messages
  are considered and selected in one execution.
\<close>

theorem C9_counterexample:
  "length (GmailApp_search env_long (''label:'' @ CONSOLIDATE_LABEL) 0 MAX_MESSAGES_PER_RUN) = 3
   \<and> length (concat (GmailApp_search env_long (''label:'' @ CONSOLIDATE_LABEL) 0 MAX_MESSAGES_PER_RUN)) = 201
   \<and> length (rr_selected (processMessagesToDoc ''doc_plain'' env_long world0)) = 201
   \<and> MAX_MESSAGES_PER_RUN = 200"
proof -
  have n: "length long_threads = 3" by (simp add: long_threads_def)
  have "concat long_threads = long_thread"
    using concat_long_threads by (simp add: long_threads_def)
  then have c: "length (concat long_threads) = 201" by (simp add: long_thread_def)
  have sel: "length (rr_selected (processMessagesToDoc ''doc_plain'' env_long world0)) = 201"
    by (simp add: run_selected run_batch_long length_js_sort long_thread_def)
  show ?thesis
    unfolding search_long by (intro conjI n c sel MAX_MESSAGES_PER_RUN_def)
qed

text \<open>
  C9. One execution scans at most \<open>MAX_MESSAGES_PER_RUN = 200\<close> threads matching the label
  query: the first 200 of the search result. Every message of those threads is considered
  (\<^verbatim>\<open>totalMsgsSeen\<close> is their number), and the batch consists of the eligible ones among
  them: the cap truncates the scanned thread list, before the eligibility test, and does
  not bound the number of messages.
\<close>

theorem C9_thread_cap:
  "length (GmailApp_search env (''label:'' @ CONSOLIDATE_LABEL) 0 MAX_MESSAGES_PER_RUN) \<le> 200
   \<and> GmailApp_search env (''label:'' @ CONSOLIDATE_LABEL) 0 MAX_MESSAGES_PER_RUN =
       take 200 (gmail_threads env (''label:'' @ CONSOLIDATE_LABEL))
   \<and> scan_threads W R (GmailApp_search env (''label:'' @ CONSOLIDATE_LABEL) 0 MAX_MESSAGES_PER_RUN) (0, []) =
       (length (concat (take 200 (gmail_threads env (''label:'' @ CONSOLIDATE_LABEL)))),
        map mk_item (filter (eligible W R)
          (concat (take 200 (gmail_threads env (''label:'' @ CONSOLIDATE_LABEL))))))
   \<and> mset (map it_message (rr_selected (processMessagesToDoc mode env w))) =
       filter_mset (eligible (watermark w) (getRecentIds w))
         (mset (concat (take 200 (gmail_threads env (''label:'' @ CONSOLIDATE_LABEL)))))"
proof -
  let ?all = "gmail_threads env (''label:'' @ CONSOLIDATE_LABEL)"
  let ?elig = "filter (eligible (watermark w) (getRecentIds w)) (concat (take 200 ?all))"
  have s: "GmailApp_search env (''label:'' @ CONSOLIDATE_LABEL) 0 MAX_MESSAGES_PER_RUN = take 200 ?all"
    by (simp add: GmailApp_search_def MAX_MESSAGES_PER_RUN_def)
  have msgs: "map it_message (map mk_item ?elig) = ?elig"
    by (induction ?elig) (simp_all add: mk_item_def comp_def)
  have "mset (map it_message (run_batch env w)) = mset (map it_message (map mk_item ?elig))"
    unfolding run_batch_eq MAX_MESSAGES_PER_RUN_def
    using mset_js_sort [of newest_first "map mk_item ?elig"] by (metis mset_map)
  then have m: "mset (map it_message (rr_selected (processMessagesToDoc mode env w))) = mset ?elig"
    by (simp only: run_selected msgs)
  show ?thesis unfolding s using m by (simp add: scan_threads_eq)
qed

section \<open>Batch insertion (doc_plain)\<close>

lemma lookup_update_same:
  "lookup_doc w i = Some d \<Longrightarrow> lookup_doc (update_doc i f w) i = Some (f d)"
  by (auto simp: lookup_doc_def update_doc_def split: if_splits)

lemma lookup_update_other:
  "i \<noteq> j \<Longrightarrow> lookup_doc (update_doc i f w) j = lookup_doc w j"
  by (auto simp: lookup_doc_def update_doc_def split: option.splits)

lemma update_doc_fields [simp]:
  "prop_last_iso (update_doc i f w) = prop_last_iso w"
  "prop_consolidated_doc (update_doc i f w) = prop_consolidated_doc w"
  "prop_recent_ids (update_doc i f w) = prop_recent_ids w"
  "logger (update_doc i f w) = logger w"
  "length (docs (update_doc i f w)) = length (docs w)"
  by (simp_all add: update_doc_def split: option.splits)

lemma lookup_add_logs [simp]: "lookup_doc (add_logs es w) i = lookup_doc w i"
  by (simp add: lookup_doc_def)

lemma lookup_create_old:
  "i < length (docs w) \<Longrightarrow> lookup_doc (w\<lparr>docs := docs w @ [x]\<rparr>) i = lookup_doc w i"
  by (simp add: lookup_doc_def nth_append)

lemma lookup_create_new:
  "lookup_doc (w\<lparr>docs := docs w @ [x]\<rparr>) (length (docs w)) = x"
  by (simp add: lookup_doc_def)

lemma lookup_Some_less: "lookup_doc w i = Some d \<Longrightarrow> i < length (docs w)"
  by (simp add: lookup_doc_def split: if_splits)

lemma compose_batch_eq:
  "compose_batch env messages tmpBody =
   tmpBody @ concat (map (\<lambda>it. render_plain env (it_message it)) messages)"
  by (induction messages arbitrary: tmpBody) simp_all

lemma insert_children_plain_None_iff:
  "fst (insert_children_plain env cs body) = None \<longleftrightarrow>
   (\<forall>c \<in> set cs. insert_error env (copy_plain c) = None)"
  by (induction cs arbitrary: body) (auto simp: Body_insert0_def split: option.splits)

lemma insert_children_plain_result:
  "insert_children_plain env cs body = (None, body') \<Longrightarrow> body' = map copy_plain (rev cs) @ body"
  by (induction cs arbitrary: body) (auto simp: Body_insert0_def split: option.splits)

lemma prependBatchPlain_unfold:
  assumes "lookup_doc w docId = Some d"
    and "insert_children_plain env
           (rev (concat (map (\<lambda>it. render_plain env (it_message it)) messages))) (doc_body d) = (r, body')"
  shows "prependBatchPlain env messages docId w =
     (let tmpId = length (docs w);
          w3 = update_doc docId (\<lambda>d. d\<lparr>doc_body := body'\<rparr>)
                 (update_doc tmpId
                    (\<lambda>d. d\<lparr>doc_body := concat (map (\<lambda>it. render_plain env (it_message it)) messages)\<rparr>)
                    (w\<lparr>docs := docs w @ [Some \<lparr>doc_body = [], doc_trashed = False\<rparr>]\<rparr>))
      in case r of Some e \<Rightarrow> (Some e, w3) | None \<Rightarrow> (None, setTrashed tmpId w3))"
  using assms
  by (simp add: prependBatchPlain_def DocumentApp_openById_def DocumentApp_create_def
      compose_batch_eq Let_def)

lemma prependBatchPlain_body:
  assumes "lookup_doc w docId = Some d"
    and "insert_children_plain env
           (rev (concat (map (\<lambda>it. render_plain env (it_message it)) messages))) (doc_body d) = (r, body')"
  shows "fst (prependBatchPlain env messages docId w) = r"
    and "lookup_doc (snd (prependBatchPlain env messages docId w)) docId = Some (d\<lparr>doc_body := body'\<rparr>)"
proof -
  let ?tmpId = "length (docs w)"
  let ?w1 = "w\<lparr>docs := docs w @ [Some \<lparr>doc_body = [], doc_trashed = False\<rparr>]\<rparr>"
  let ?w2 = "update_doc ?tmpId
               (\<lambda>d. d\<lparr>doc_body := concat (map (\<lambda>it. render_plain env (it_message it)) messages)\<rparr>) ?w1"
  have lt: "docId < ?tmpId" using assms(1) by (rule lookup_Some_less)
  then have ne: "?tmpId \<noteq> docId" by simp
  have "lookup_doc ?w1 docId = Some d" using assms(1) lt by (simp add: lookup_create_old)
  then have "lookup_doc ?w2 docId = Some d" using ne by (simp add: lookup_update_other)
  then have l3: "lookup_doc (update_doc docId (\<lambda>d. d\<lparr>doc_body := body'\<rparr>) ?w2) docId
      = Some (d\<lparr>doc_body := body'\<rparr>)"
    by (rule lookup_update_same)
  show "fst (prependBatchPlain env messages docId w) = r"
    by (simp add: prependBatchPlain_unfold [OF assms] Let_def split: option.splits)
  show "lookup_doc (snd (prependBatchPlain env messages docId w)) docId = Some (d\<lparr>doc_body := body'\<rparr>)"
    using l3 ne
    by (simp add: prependBatchPlain_unfold [OF assms] Let_def setTrashed_def lookup_update_other
        split: option.splits)
qed

lemma concat_split_index:
  assumes "i < j" "j < length xs"
  shows "\<exists>pre mid post. concat (map f xs) = pre @ f (xs ! i) @ mid @ f (xs ! j) @ post"
proof -
  define a where "a = xs ! i"
  define b where "b = xs ! j"
  define A where "A = take i xs"
  define B where "B = take (j - Suc i) (drop (Suc i) xs)"
  define C where "C = drop (Suc j) xs"
  have "xs = take i xs @ xs ! i # drop (Suc i) xs"
    using assms by (simp add: id_take_nth_drop)
  moreover have "drop (Suc i) xs = take (j - Suc i) (drop (Suc i) xs) @ xs ! j # drop (Suc j) xs"
    using assms id_take_nth_drop [of "j - Suc i" "drop (Suc i) xs"] by simp
  ultimately have "xs = A @ a # B @ b # C"
    unfolding a_def b_def A_def B_def C_def by simp
  then have "concat (map f xs) = concat (map f (A @ a # B @ b # C))" by simp
  then have "concat (map f xs) = concat (map f A) @ f a @ concat (map f B) @ f b @ concat (map f C)"
    by simp
  then show ?thesis unfolding a_def b_def by blast
qed

text \<open>
  C3. Let the destination exist with prior content \<open>doc_body d\<close>. \<^verbatim>\<open>prependBatchPlain\<close>
  returns normally exactly when the backend accepts every element of the batch's
  rendering, and then the destination holds the renderings of the batch's messages, in
  batch order, followed by the entire prior content, unchanged: the whole batch is above
  all prior content, and for positions \<open>i < j\<close> of the batch (in a newest-first batch,
  message \<open>i\<close> is the newer one) the rendering of message \<open>i\<close> is above that of
  message \<open>j\<close>.
\<close>

theorem C3_prependBatchPlain:
  assumes "lookup_doc w docId = Some d"
  shows "(fst (prependBatchPlain env messages docId w) = None \<longleftrightarrow>
           (\<forall>it \<in> set messages. \<forall>el \<in> set (plain_rendering env it). insert_error env el = None))
    \<and> (fst (prependBatchPlain env messages docId w) = None \<longrightarrow>
         lookup_doc (snd (prependBatchPlain env messages docId w)) docId =
           Some (d\<lparr>doc_body := concat (map (plain_rendering env) messages) @ doc_body d\<rparr>)
         \<and> (\<forall>i j. i < j \<and> j < length messages \<longrightarrow>
               (\<exists>pre mid post.
                  lookup_doc (snd (prependBatchPlain env messages docId w)) docId =
                    Some (d\<lparr>doc_body := pre @ plain_rendering env (messages ! i) @ mid
                                      @ plain_rendering env (messages ! j) @ post @ doc_body d\<rparr>))))"
proof -
  let ?tmpBody = "concat (map (\<lambda>it. render_plain env (it_message it)) messages)"
  obtain r body' where ins: "insert_children_plain env (rev ?tmpBody) (doc_body d) = (r, body')"
    by (cases "insert_children_plain env (rev ?tmpBody) (doc_body d)")
  note pb = prependBatchPlain_body [OF assms ins]
  have "r = None \<longleftrightarrow> (\<forall>c \<in> set (rev ?tmpBody). insert_error env (copy_plain c) = None)"
    using insert_children_plain_None_iff [of env "rev ?tmpBody" "doc_body d"] by (simp add: ins)
  also have "\<dots> \<longleftrightarrow> (\<forall>it \<in> set messages. \<forall>el \<in> set (plain_rendering env it). insert_error env el = None)"
    by (auto simp: plain_rendering_def)
  finally have iff: "fst (prependBatchPlain env messages docId w) = None \<longleftrightarrow>
      (\<forall>it \<in> set messages. \<forall>el \<in> set (plain_rendering env it). insert_error env el = None)"
    by (simp only: pb(1))
  have body: "lookup_doc (snd (prependBatchPlain env messages docId w)) docId =
           Some (d\<lparr>doc_body := concat (map (plain_rendering env) messages) @ doc_body d\<rparr>)"
    if ok: "fst (prependBatchPlain env messages docId w) = None"
  proof -
    from ok have r: "r = None" by (simp only: pb(1))
    from insert_children_plain_result [OF ins [unfolded r]]
    have "body' = map copy_plain ?tmpBody @ doc_body d" by simp
    moreover have "map copy_plain ?tmpBody = concat (map (plain_rendering env) messages)"
      by (simp add: map_concat plain_rendering_def [abs_def] comp_def)
    ultimately show ?thesis by (simp only: pb(2))
  qed
  have order: "\<exists>pre mid post.
        lookup_doc (snd (prependBatchPlain env messages docId w)) docId =
          Some (d\<lparr>doc_body := pre @ plain_rendering env (messages ! i) @ mid
                            @ plain_rendering env (messages ! j) @ post @ doc_body d\<rparr>)"
    if ok: "fst (prependBatchPlain env messages docId w) = None" and ij: "i < j" "j < length messages"
    for i j
  proof -
    obtain pre mid post where
      "concat (map (plain_rendering env) messages) =
         pre @ plain_rendering env (messages ! i) @ mid @ plain_rendering env (messages ! j) @ post"
      using concat_split_index [OF ij, of "plain_rendering env"] by blast
    then show ?thesis unfolding body [OF ok] by (intro exI [of _ pre] exI [of _ mid] exI [of _ post]) simp
  qed
  show ?thesis
  proof (intro conjI impI allI)
    show "fst (prependBatchPlain env messages docId w) = None \<longleftrightarrow>
      (\<forall>it \<in> set messages. \<forall>el \<in> set (plain_rendering env it). insert_error env el = None)"
      by (rule iff)
  next
    assume "fst (prependBatchPlain env messages docId w) = None"
    then show "lookup_doc (snd (prependBatchPlain env messages docId w)) docId =
           Some (d\<lparr>doc_body := concat (map (plain_rendering env) messages) @ doc_body d\<rparr>)"
      by (rule body)
  next
    fix i j
    assume "fst (prependBatchPlain env messages docId w) = None" and "i < j \<and> j < length messages"
    then show "\<exists>pre mid post.
        lookup_doc (snd (prependBatchPlain env messages docId w)) docId =
          Some (d\<lparr>doc_body := pre @ plain_rendering env (messages ! i) @ mid
                            @ plain_rendering env (messages ! j) @ post @ doc_body d\<rparr>)"
      using order by blast
  qed
qed

text \<open>
  Two messages prepended to a document that holds one paragraph.
\<close>

theorem C3_prependBatchPlain_witness:
  "lookup_doc world1 0 = Some \<lparr>doc_body = [PARAGRAPH NORMAL ''old''], doc_trashed = False\<rparr>
   \<and> fst (prependBatchPlain env0 [mk_item msg_a, mk_item msg_b] 0 world1) = None
   \<and> lookup_doc (snd (prependBatchPlain env0 [mk_item msg_a, mk_item msg_b] 0 world1)) 0 =
       Some \<lparr>doc_body =
         [PARAGRAPH NORMAL ''--- EMAIL START ---'', PARAGRAPH NORMAL ''Subject: A'',
          PARAGRAPH NORMAL ''From: x'', PARAGRAPH NORMAL ''To: y'', PARAGRAPH NORMAL ''Date: '',
          PARAGRAPH NORMAL '''', PARAGRAPH NORMAL ''hi'', PARAGRAPH NORMAL ''--- EMAIL END ---'',
          PAGE_BREAK,
          PARAGRAPH NORMAL ''--- EMAIL START ---'', PARAGRAPH NORMAL ''Subject: (no subject)'',
          PARAGRAPH NORMAL ''From: x'', PARAGRAPH NORMAL ''To: y'', PARAGRAPH NORMAL ''Date: '',
          PARAGRAPH NORMAL '''', PARAGRAPH NORMAL ''(no body)'', PARAGRAPH NORMAL ''--- EMAIL END ---'',
          PAGE_BREAK,
          PARAGRAPH NORMAL ''old''],
         doc_trashed = False\<rparr>"
proof -
  let ?d = "\<lparr>doc_body = [PARAGRAPH NORMAL ''old''], doc_trashed = False\<rparr>"
  have l: "lookup_doc world1 0 = Some ?d" by (simp add: lookup_doc_def world1_def)
  have acc: "\<forall>it \<in> set [mk_item msg_a, mk_item msg_b].
               \<forall>el \<in> set (plain_rendering env0 it). insert_error env0 el = None"
    by (simp add: env0_def)
  have ra: "plain_rendering env0 (mk_item msg_a) =
         [PARAGRAPH NORMAL ''--- EMAIL START ---'', PARAGRAPH NORMAL ''Subject: A'',
          PARAGRAPH NORMAL ''From: x'', PARAGRAPH NORMAL ''To: y'', PARAGRAPH NORMAL ''Date: '',
          PARAGRAPH NORMAL '''', PARAGRAPH NORMAL ''hi'', PARAGRAPH NORMAL ''--- EMAIL END ---'',
          PAGE_BREAK]"
    by (simp add: plain_rendering_def render_plain_def mk_item_def msg_a_def plain_text_of_def
        split_lines_def env0_def)
  have rb: "plain_rendering env0 (mk_item msg_b) =
         [PARAGRAPH NORMAL ''--- EMAIL START ---'', PARAGRAPH NORMAL ''Subject: (no subject)'',
          PARAGRAPH NORMAL ''From: x'', PARAGRAPH NORMAL ''To: y'', PARAGRAPH NORMAL ''Date: '',
          PARAGRAPH NORMAL '''', PARAGRAPH NORMAL ''(no body)'', PARAGRAPH NORMAL ''--- EMAIL END ---'',
          PAGE_BREAK]"
    by (simp add: plain_rendering_def render_plain_def mk_item_def msg_b_def plain_text_of_def
        split_lines_def env0_def)
  from C3_prependBatchPlain [OF l, of env0 "[mk_item msg_a, mk_item msg_b]"] acc
  have ok: "fst (prependBatchPlain env0 [mk_item msg_a, mk_item msg_b] 0 world1) = None"
    and body: "lookup_doc (snd (prependBatchPlain env0 [mk_item msg_a, mk_item msg_b] 0 world1)) 0 =
      Some (?d\<lparr>doc_body := concat (map (plain_rendering env0) [mk_item msg_a, mk_item msg_b])
                              @ doc_body ?d\<rparr>)"
    by blast+
  show ?thesis using l ok body by (simp add: ra rb)
qed

section \<open>The per-message path (doc_html)\<close>

lemma same_props_refl [simp]: "same_props w w"
  by (simp add: same_props_def)

lemma same_props_trans: "same_props a b \<Longrightarrow> same_props b c \<Longrightarrow> same_props a c"
  by (simp add: same_props_def)

lemma same_props_update_doc [simp]: "same_props w (update_doc i f w)"
  by (simp add: same_props_def)

lemma same_props_add_logs [simp]: "same_props w (add_logs es w)"
  by (simp add: same_props_def)

lemma same_props_reads:
  "same_props w w' \<Longrightarrow> watermark w' = watermark w \<and> getRecentIds w' = getRecentIds w"
  by (simp add: same_props_def watermark_def getRecentIds_def)

lemma fst_Body_insert0: "fst (Body_insert0 env el body) = insert_error env el"
  by (simp add: Body_insert0_def split: option.splits)

lemma fst_insert_rows_indep:
  "fst (insert_rows env rows body) = fst (insert_rows env rows body')"
  by (induction rows arbitrary: body body') (auto simp: Body_insert0_def split: option.splits)

lemma fst_copy_child_html_indep:
  "fst (copy_child_html env c body) = fst (copy_child_html env c body')"
  by (cases c) (simp_all add: fst_Body_insert0 fst_insert_rows_indep [of env _ body body'])

lemma fst_insert_children_html_indep:
  "fst (insert_children_html env cs body) = fst (insert_children_html env cs body')"
proof (induction cs arbitrary: body body')
  case Nil
  then show ?case by simp
next
  case (Cons c cs)
  obtain r b where c1: "copy_child_html env c body = (r, b)" by (cases "copy_child_html env c body")
  obtain r' b' where c2: "copy_child_html env c body' = (r', b')" by (cases "copy_child_html env c body'")
  have rr: "r' = r" using fst_copy_child_html_indep [of env c body body'] c1 c2 by simp
  show ?case
  proof (cases r)
    case None
    then show ?thesis using Cons.IH [of b b'] by (simp add: c1 c2 rr)
  next
    case (Some e)
    show ?thesis
    proof (cases "insert_error env (insert_failed_marker e)")
      case None
      then show ?thesis using Cons.IH [of "insert_failed_marker e # b" "insert_failed_marker e # b'"] Some
        by (simp add: c1 c2 rr Body_insert0_def)
    next
      case (Some e2)
      then show ?thesis using \<open>r = Some e\<close> by (simp add: c1 c2 rr Body_insert0_def)
    qed
  qed
qed

lemma prependMessageHtmlToDoc_facts:
  assumes "lookup_doc w docId = Some d"
  shows "fst (prependMessageHtmlToDoc env msg docId w) = html_outcome env msg"
    and "same_props w (snd (prependMessageHtmlToDoc env msg docId w))"
    and "logger (snd (prependMessageHtmlToDoc env msg docId w)) = logger w"
    and "\<exists>d'. lookup_doc (snd (prependMessageHtmlToDoc env msg docId w)) docId = Some d'"
proof -
  have lt: "docId < length (docs w)" using assms by (simp add: lookup_doc_def split: if_splits)
  show "fst (prependMessageHtmlToDoc env msg docId w) = html_outcome env msg"
  proof (cases "html_convert env (fullHtml_of env msg)")
    case (Inl e)
    then show ?thesis
      by (simp add: prependMessageHtmlToDoc_def convertHtmlToDoc_def html_outcome_def)
  next
    case (Inr children)
    have l1: "lookup_doc (w\<lparr>docs := docs w @ [Some \<lparr>doc_body = children, doc_trashed = False\<rparr>]\<rparr>) docId = Some d"
      using assms lt by (simp add: lookup_create_old)
    have l2: "lookup_doc (w\<lparr>docs := docs w @ [Some \<lparr>doc_body = children, doc_trashed = False\<rparr>]\<rparr>) (length (docs w))
        = Some \<lparr>doc_body = children, doc_trashed = False\<rparr>"
      by (simp add: lookup_create_new)
    show ?thesis
      using fst_insert_children_html_indep [of env "rev children" "doc_body d" "[]"]
      by (simp add: prependMessageHtmlToDoc_def convertHtmlToDoc_def html_outcome_def Inr
          DocumentApp_openById_def l1 l2 Let_def split_def split: option.splits)
  qed
  show "same_props w (snd (prependMessageHtmlToDoc env msg docId w))"
    by (simp add: prependMessageHtmlToDoc_def convertHtmlToDoc_def DocumentApp_openById_def
        Let_def split_def setTrashed_def same_props_def split: sum.splits option.splits)
  show "logger (snd (prependMessageHtmlToDoc env msg docId w)) = logger w"
    by (simp add: prependMessageHtmlToDoc_def convertHtmlToDoc_def DocumentApp_openById_def
        Let_def split_def setTrashed_def split: sum.splits option.splits)
  show "\<exists>d'. lookup_doc (snd (prependMessageHtmlToDoc env msg docId w)) docId = Some d'"
  proof (cases "html_convert env (fullHtml_of env msg)")
    case (Inl e)
    then show ?thesis using assms
      by (simp add: prependMessageHtmlToDoc_def convertHtmlToDoc_def)
  next
    case (Inr children)
    let ?w1 = "w\<lparr>docs := docs w @ [Some \<lparr>doc_body = children, doc_trashed = False\<rparr>]\<rparr>"
    have l1: "lookup_doc ?w1 docId = Some d"
      using assms lt by (simp add: lookup_create_old)
    have l2: "lookup_doc ?w1 (length (docs w)) = Some \<lparr>doc_body = children, doc_trashed = False\<rparr>"
      by (simp add: lookup_create_new)
    have ne: "length (docs w) \<noteq> docId" using lt by simp
    obtain r b where ins: "insert_children_html env (rev children) (doc_body d) = (r, b)"
      by (cases "insert_children_html env (rev children) (doc_body d)")
    have l3: "lookup_doc (update_doc docId (\<lambda>d. d\<lparr>doc_body := b\<rparr>) ?w1) docId = Some (d\<lparr>doc_body := b\<rparr>)"
      using l1 by (rule lookup_update_same)
    show ?thesis
      using l3 ne
      by (simp add: prependMessageHtmlToDoc_def convertHtmlToDoc_def Inr DocumentApp_openById_def
          l1 l2 ins Let_def setTrashed_def lookup_update_other split: option.splits)
  qed
qed

lemma html_loop_result:
  assumes "lookup_doc w docId = Some d"
  shows "\<exists>w' d'. html_loop env docId items (w, recent, newestSeen, inserted) =
      (w',
       foldl set_add recent (map it_id (filter (\<lambda>it. html_outcome env (it_message it) = None) items)),
       foldl max newestSeen (map it_date (filter (\<lambda>it. html_outcome env (it_message it) = None) items)),
       inserted @ filter (\<lambda>it. html_outcome env (it_message it) = None) items)
     \<and> same_props w w' \<and> lookup_doc w' docId = Some d'
     \<and> logger w' = logger w @ error_entries env items"
  using assms
proof (induction items arbitrary: w recent newestSeen inserted d)
  case Nil
  then show ?case by (simp add: error_entries_def)
next
  case (Cons item rest)
  obtain r w1 where call: "prependMessageHtmlToDoc env (it_message item) docId w = (r, w1)"
    by (cases "prependMessageHtmlToDoc env (it_message item) docId w")
  note facts = prependMessageHtmlToDoc_facts [OF Cons.prems, of env "it_message item"]
  have r: "r = html_outcome env (it_message item)" using facts(1) call by simp
  have sp: "same_props w w1" using facts(2) call by simp
  have lg: "logger w1 = logger w" using facts(3) call by simp
  obtain d1 where l1: "lookup_doc w1 docId = Some d1" using facts(4) call by auto
  show ?case
  proof (cases r)
    case None
    from Cons.IH [OF l1, of "set_add recent (it_id item)"
        "if it_date item > newestSeen then it_date item else newestSeen" "inserted @ [item]"]
    obtain w' d' where
      "html_loop env docId rest (w1, set_add recent (it_id item),
          (if it_date item > newestSeen then it_date item else newestSeen), inserted @ [item]) =
        (w',
         foldl set_add (set_add recent (it_id item))
           (map it_id (filter (\<lambda>it. html_outcome env (it_message it) = None) rest)),
         foldl max (if it_date item > newestSeen then it_date item else newestSeen)
           (map it_date (filter (\<lambda>it. html_outcome env (it_message it) = None) rest)),
         (inserted @ [item]) @ filter (\<lambda>it. html_outcome env (it_message it) = None) rest)"
      and "same_props w1 w'" and "lookup_doc w' docId = Some d'"
      and "logger w' = logger w1 @ error_entries env rest"
      by blast
    moreover have "(if it_date item > newestSeen then it_date item else newestSeen)
        = max newestSeen (it_date item)" by (simp add: max_def)
    ultimately show ?thesis
      using None r sp lg same_props_trans [OF sp]
      by (auto simp: call error_entries_def)
  next
    case (Some e)
    let ?w2 = "Logger_log (LOG_error (msg_subject (it_message item)) e) w1"
    have l2: "lookup_doc ?w2 docId = Some d1" using l1 by (simp add: Logger_log_add_logs)
    have sp2: "same_props w ?w2"
      using sp by (simp add: same_props_def Logger_log_def)
    from Cons.IH [OF l2, of recent newestSeen inserted]
    obtain w' d' where
      "html_loop env docId rest (?w2, recent, newestSeen, inserted) =
        (w',
         foldl set_add recent
           (map it_id (filter (\<lambda>it. html_outcome env (it_message it) = None) rest)),
         foldl max newestSeen
           (map it_date (filter (\<lambda>it. html_outcome env (it_message it) = None) rest)),
         inserted @ filter (\<lambda>it. html_outcome env (it_message it) = None) rest)"
      and "same_props ?w2 w'" and "lookup_doc w' docId = Some d'"
      and "logger w' = logger ?w2 @ error_entries env rest"
      by blast
    then show ?thesis
      using Some r lg same_props_trans [OF sp2]
      by (auto simp: call error_entries_def Logger_log_def)
  qed
qed

lemma persist_state_fields [simp]:
  "prop_last_iso (persist_state n r w) = Some n"
  "prop_recent_ids (persist_state n r w) = Some (slice_last RECENT_IDS_LIMIT r)"
  "prop_consolidated_doc (persist_state n r w) = prop_consolidated_doc w"
  "docs (persist_state n r w) = docs w"
  "logger (persist_state n r w) = logger w @ [LOG_updated n (length r)]"
  by (simp_all add: persist_state_def Logger_log_def saveRecentIds_def)

lemma ensure_handle_resolves:
  "\<exists>d. lookup_doc (snd (ensureConsolidatedDoc w)) (fst (ensureConsolidatedDoc w)) = Some d"
  using ensure_makes_live [of w] ensure_persists [of w]
  by (auto simp: handle_live_def split: option.splits)

lemma run_html_summary:
  assumes "run_batch env w \<noteq> []"
  shows "rr_raised (processMessagesToDoc ''doc_html'' env w) = None"
    and "rr_inserted (processMessagesToDoc ''doc_html'' env w) = html_accepted env (run_batch env w)"
    and "prop_last_iso (rr_world (processMessagesToDoc ''doc_html'' env w)) =
           Some (foldl max (watermark w) (map it_date (html_accepted env (run_batch env w))))"
    and "prop_recent_ids (rr_world (processMessagesToDoc ''doc_html'' env w)) =
           Some (slice_last RECENT_IDS_LIMIT
                  (foldl set_add (getRecentIds w) (map it_id (html_accepted env (run_batch env w)))))"
    and "prop_consolidated_doc (rr_world (processMessagesToDoc ''doc_html'' env w)) =
           prop_consolidated_doc (snd (ensureConsolidatedDoc w))"
    and "\<exists>es. logger (rr_world (processMessagesToDoc ''doc_html'' env w)) =
           logger (snd (ensureConsolidatedDoc w)) @ es @ error_entries env (run_batch env w)
             @ [LOG_updated (foldl max (watermark w) (map it_date (html_accepted env (run_batch env w))))
                  (length (foldl set_add (getRecentIds w) (map it_id (html_accepted env (run_batch env w)))))]"
proof -
  obtain newest others where batch: "run_batch env w = newest # others"
    using assms by (cases "run_batch env w") auto
  let ?docId = "fst (ensureConsolidatedDoc w)"
  let ?w1 = "snd (ensureConsolidatedDoc w)"
  obtain es where
      eq: "processMessagesToDoc ''doc_html'' env w =
           (case html_loop env ?docId (newest # others)
                   (add_logs es ?w1, getRecentIds w, watermark w, []) of
              (w5, recent', newestSeen, inserted) \<Rightarrow>
                \<lparr>rr_raised = None, rr_world = persist_state newestSeen recent' w5,
                 rr_selected = newest # others, rr_inserted = inserted\<rparr>)"
    using run_html [OF batch] by blast
  obtain d where "lookup_doc ?w1 ?docId = Some d" using ensure_handle_resolves by blast
  then have l: "lookup_doc (add_logs es ?w1) ?docId = Some d" by simp
  from html_loop_result [OF l, of env "newest # others" "getRecentIds w" "watermark w" "[]"]
  obtain w' d' where
    loop: "html_loop env ?docId (newest # others) (add_logs es ?w1, getRecentIds w, watermark w, []) =
      (w',
       foldl set_add (getRecentIds w) (map it_id (html_accepted env (newest # others))),
       foldl max (watermark w) (map it_date (html_accepted env (newest # others))),
       html_accepted env (newest # others))"
    and sp: "same_props (add_logs es ?w1) w'"
    and lg: "logger w' = logger (add_logs es ?w1) @ error_entries env (newest # others)"
    unfolding html_accepted_def by auto
  have rr: "processMessagesToDoc ''doc_html'' env w =
      \<lparr>rr_raised = None,
       rr_world = persist_state (foldl max (watermark w) (map it_date (html_accepted env (newest # others))))
                    (foldl set_add (getRecentIds w) (map it_id (html_accepted env (newest # others)))) w',
       rr_selected = newest # others, rr_inserted = html_accepted env (newest # others)\<rparr>"
    unfolding eq loop by simp
  show "rr_raised (processMessagesToDoc ''doc_html'' env w) = None" by (simp add: rr)
  show "rr_inserted (processMessagesToDoc ''doc_html'' env w) = html_accepted env (run_batch env w)"
    by (simp add: rr batch)
  show "prop_last_iso (rr_world (processMessagesToDoc ''doc_html'' env w)) =
           Some (foldl max (watermark w) (map it_date (html_accepted env (run_batch env w))))"
    by (simp add: rr batch)
  show "prop_recent_ids (rr_world (processMessagesToDoc ''doc_html'' env w)) =
           Some (slice_last RECENT_IDS_LIMIT
                  (foldl set_add (getRecentIds w) (map it_id (html_accepted env (run_batch env w)))))"
    by (simp add: rr batch)
  show "prop_consolidated_doc (rr_world (processMessagesToDoc ''doc_html'' env w)) =
           prop_consolidated_doc (snd (ensureConsolidatedDoc w))"
    using sp by (simp add: rr same_props_def)
  show "\<exists>es. logger (rr_world (processMessagesToDoc ''doc_html'' env w)) =
           logger (snd (ensureConsolidatedDoc w)) @ es @ error_entries env (run_batch env w)
             @ [LOG_updated (foldl max (watermark w) (map it_date (html_accepted env (run_batch env w))))
                  (length (foldl set_add (getRecentIds w) (map it_id (html_accepted env (run_batch env w)))))]"
    by (rule exI [of _ es]) (simp add: rr batch lg add_logs_def)
qed

section \<open>What one execution leaves\<close>

lemma prependBatchPlain_props: "same_props w (snd (prependBatchPlain env ms docId w))"
  by (simp add: prependBatchPlain_def DocumentApp_openById_def DocumentApp_create_def Let_def
      split_def setTrashed_def same_props_def split: sum.splits option.splits)

lemma prependBatchPlain_None_iff:
  assumes "lookup_doc w docId = Some d"
  shows "fst (prependBatchPlain env ms docId w) = None \<longleftrightarrow> plain_accepted env ms"
proof -
  let ?tmpBody = "concat (map (\<lambda>it. render_plain env (it_message it)) ms)"
  obtain r body' where ins: "insert_children_plain env (rev ?tmpBody) (doc_body d) = (r, body')"
    by (cases "insert_children_plain env (rev ?tmpBody) (doc_body d)")
  have "r = None \<longleftrightarrow> (\<forall>c \<in> set (rev ?tmpBody). insert_error env (copy_plain c) = None)"
    using insert_children_plain_None_iff [of env "rev ?tmpBody" "doc_body d"] by (simp add: ins)
  also have "\<dots> \<longleftrightarrow> plain_accepted env ms"
    by (auto simp: plain_rendering_def plain_accepted_def)
  finally show ?thesis by (simp only: prependBatchPlain_body(1) [OF assms ins])
qed

lemma run_plain_summary:
  assumes batch: "run_batch env w = newest # others"
  shows "plain_accepted env (newest # others) \<Longrightarrow>
           rr_raised (processMessagesToDoc ''doc_plain'' env w) = None
           \<and> rr_inserted (processMessagesToDoc ''doc_plain'' env w) = newest # others
           \<and> prop_last_iso (rr_world (processMessagesToDoc ''doc_plain'' env w)) = Some (it_date newest)
           \<and> prop_recent_ids (rr_world (processMessagesToDoc ''doc_plain'' env w)) =
               Some (slice_last RECENT_IDS_LIMIT
                  (foldl set_add (getRecentIds w) (map it_id (newest # others))))
           \<and> prop_consolidated_doc (rr_world (processMessagesToDoc ''doc_plain'' env w)) =
               prop_consolidated_doc (snd (ensureConsolidatedDoc w))"
    and "\<not> plain_accepted env (newest # others) \<Longrightarrow>
           (\<exists>e. rr_raised (processMessagesToDoc ''doc_plain'' env w) = Some e)
           \<and> rr_inserted (processMessagesToDoc ''doc_plain'' env w) = []
           \<and> same_props (snd (ensureConsolidatedDoc w)) (rr_world (processMessagesToDoc ''doc_plain'' env w))"
proof -
  let ?docId = "fst (ensureConsolidatedDoc w)"
  let ?w1 = "snd (ensureConsolidatedDoc w)"
  obtain es where
      eq: "processMessagesToDoc ''doc_plain'' env w =
           (case prependBatchPlain env (newest # others) ?docId (add_logs es ?w1) of
              (Some e, w5) \<Rightarrow>
                \<lparr>rr_raised = Some e, rr_world = w5,
                 rr_selected = newest # others, rr_inserted = []\<rparr>
            | (None, w5) \<Rightarrow>
                \<lparr>rr_raised = None,
                 rr_world = persist_state (it_date newest)
                              (foldl set_add (getRecentIds w) (map it_id (newest # others))) w5,
                 rr_selected = newest # others, rr_inserted = newest # others\<rparr>)"
    using run_plain [OF batch] by blast
  obtain d where "lookup_doc ?w1 ?docId = Some d" using ensure_handle_resolves by blast
  then have l: "lookup_doc (add_logs es ?w1) ?docId = Some d" by simp
  obtain r w5 where call: "prependBatchPlain env (newest # others) ?docId (add_logs es ?w1) = (r, w5)"
    by (cases "prependBatchPlain env (newest # others) ?docId (add_logs es ?w1)")
  have r: "r = None \<longleftrightarrow> plain_accepted env (newest # others)"
    using prependBatchPlain_None_iff [OF l, of env "newest # others"] call by simp
  have sp: "same_props ?w1 w5"
    using prependBatchPlain_props [of "add_logs es ?w1" env "newest # others" ?docId] call
    by (simp add: same_props_def)
  {
    assume "plain_accepted env (newest # others)"
    with r have "r = None" by simp
    then show "rr_raised (processMessagesToDoc ''doc_plain'' env w) = None
           \<and> rr_inserted (processMessagesToDoc ''doc_plain'' env w) = newest # others
           \<and> prop_last_iso (rr_world (processMessagesToDoc ''doc_plain'' env w)) = Some (it_date newest)
           \<and> prop_recent_ids (rr_world (processMessagesToDoc ''doc_plain'' env w)) =
               Some (slice_last RECENT_IDS_LIMIT
                  (foldl set_add (getRecentIds w) (map it_id (newest # others))))
           \<and> prop_consolidated_doc (rr_world (processMessagesToDoc ''doc_plain'' env w)) =
               prop_consolidated_doc (snd (ensureConsolidatedDoc w))"
      using sp unfolding eq call by (simp add: same_props_def del: foldl_Cons list.map)
  }
  {
    assume "\<not> plain_accepted env (newest # others)"
    with r obtain e where "r = Some e" by (cases r) auto
    then show "(\<exists>e. rr_raised (processMessagesToDoc ''doc_plain'' env w) = Some e)
           \<and> rr_inserted (processMessagesToDoc ''doc_plain'' env w) = []
           \<and> same_props (snd (ensureConsolidatedDoc w)) (rr_world (processMessagesToDoc ''doc_plain'' env w))"
      using sp unfolding eq call by simp
  }
qed

lemma ensure_same_reads:
  "watermark (snd (ensureConsolidatedDoc w)) = watermark w"
  "prop_recent_ids (snd (ensureConsolidatedDoc w)) = prop_recent_ids w"
  "prop_last_iso (snd (ensureConsolidatedDoc w)) = prop_last_iso w"
  by (simp_all add: ensure_reads ensure_fields)

lemma run_batch_eligible:
  "it \<in> set (run_batch env w) \<Longrightarrow>
   it_date it > watermark w \<and> it_id it \<notin> set (getRecentIds w)"
  by (auto simp: run_batch_eq set_js_sort eligible_def set_has_def mk_item_def)

lemma run_batch_sorted: "sorted_wrt (\<lambda>a b. it_date a \<ge> it_date b) (run_batch env w)"
  by (simp add: run_batch_eq sorted_js_sort_newest)

lemma foldl_max_Max: "foldl max (a::int) xs = Max (insert a (set xs))"
proof -
  have "(\<lambda>x s. max s x) = (max :: int \<Rightarrow> int \<Rightarrow> int)"
    by (intro ext) (simp add: max.commute)
  then have "foldl max a xs = fold max xs a" by (simp add: foldl_conv_fold)
  also have "\<dots> = Max (set (a # xs))" by (simp only: Max.set_eq_fold)
  finally show ?thesis by simp
qed

lemma html_accepted_subset: "set (html_accepted env items) \<subseteq> set items"
  by (auto simp: html_accepted_def)

text \<open>The three ways an execution ends.\<close>

lemma run_cases:
  obtains
    (nothing) "rr_selected (processMessagesToDoc mode env w) = []"
      "rr_inserted (processMessagesToDoc mode env w) = []"
      "rr_raised (processMessagesToDoc mode env w) = None"
      "same_props (snd (ensureConsolidatedDoc w)) (rr_world (processMessagesToDoc mode env w))"
  | (aborted) e where "rr_selected (processMessagesToDoc mode env w) \<noteq> []"
      "rr_inserted (processMessagesToDoc mode env w) = []"
      "rr_raised (processMessagesToDoc mode env w) = Some e"
      "same_props (snd (ensureConsolidatedDoc w)) (rr_world (processMessagesToDoc mode env w))"
  | (committed) "rr_selected (processMessagesToDoc mode env w) \<noteq> []"
      "set (rr_inserted (processMessagesToDoc mode env w)) \<subseteq> set (rr_selected (processMessagesToDoc mode env w))"
      "rr_raised (processMessagesToDoc mode env w) = None"
      "prop_last_iso (rr_world (processMessagesToDoc mode env w)) =
         Some (Max (insert (watermark w) (it_date ` set (rr_inserted (processMessagesToDoc mode env w)))))"
      "prop_recent_ids (rr_world (processMessagesToDoc mode env w)) =
         Some (slice_last RECENT_IDS_LIMIT
                (foldl set_add (getRecentIds w) (map it_id (rr_inserted (processMessagesToDoc mode env w)))))"
      "prop_consolidated_doc (rr_world (processMessagesToDoc mode env w)) =
         prop_consolidated_doc (snd (ensureConsolidatedDoc w))"
proof (cases "run_batch env w")
  case Nil
  then obtain es where rr: "processMessagesToDoc mode env w =
           \<lparr>rr_raised = None, rr_world = add_logs es (snd (ensureConsolidatedDoc w)),
            rr_selected = [], rr_inserted = []\<rparr>"
    using run_empty by blast
  show ?thesis by (rule nothing) (simp_all add: rr)
next
  case (Cons newest others)
  then have sel: "rr_selected (processMessagesToDoc mode env w) = newest # others"
    by (simp add: run_selected)
  consider "mode = ''doc_plain''" | "mode = ''doc_html''" | "mode \<noteq> ''doc_plain''" "mode \<noteq> ''doc_html''"
    by blast
  then show ?thesis
  proof cases
    case 1
    show ?thesis
    proof (cases "plain_accepted env (newest # others)")
      case True
      note s = run_plain_summary(1) [OF Cons True]
      have top: "\<forall>x \<in> set others. it_date x \<le> it_date newest"
        using run_batch_sorted [of env w] by (simp add: Cons)
      have "watermark w < it_date newest"
        using run_batch_eligible [of newest env w] by (simp add: Cons)
      with top have "Max (insert (watermark w) (it_date ` set (newest # others))) = it_date newest"
        by (intro Max_eqI) auto
      then show ?thesis
        using s sel by (intro committed) (simp_all add: 1 del: foldl_Cons list.map)
    next
      case False
      note s = run_plain_summary(2) [OF Cons False]
      then obtain e where e: "rr_raised (processMessagesToDoc ''doc_plain'' env w) = Some e" by blast
      show ?thesis using s sel e by (intro aborted [of e]) (simp_all add: 1)
    qed
  next
    case 2
    have ne: "run_batch env w \<noteq> []" by (simp add: Cons)
    note s = run_html_summary [OF ne]
    have "foldl max (watermark w) (map it_date (html_accepted env (run_batch env w)))
      = Max (insert (watermark w) (it_date ` set (html_accepted env (run_batch env w))))"
      by (simp add: foldl_max_Max)
    then show ?thesis
      using s(1-5) sel html_accepted_subset [of env "run_batch env w"]
      by (intro committed) (simp_all add: 2 Cons del: foldl_Cons list.map)
  next
    case 3
    from run_unknown [OF Cons 3] obtain es where rr: "processMessagesToDoc mode env w =
           \<lparr>rr_raised = Some (''Error: Unknown OUTPUT_MODE: '' @ mode),
            rr_world = add_logs es (snd (ensureConsolidatedDoc w)),
            rr_selected = newest # others, rr_inserted = []\<rparr>"
      by blast
    show ?thesis by (rule aborted [of "''Error: Unknown OUTPUT_MODE: '' @ mode"]) (simp_all add: rr)
  qed
qed

lemma run_inserted_subset:
  "set (rr_inserted (processMessagesToDoc mode env w)) \<subseteq> set (rr_selected (processMessagesToDoc mode env w))"
  by (rule run_cases [of mode env w]) simp_all

lemma run_watermark:
  "watermark (rr_world (processMessagesToDoc mode env w)) =
   Max (insert (watermark w) (it_date ` set (rr_inserted (processMessagesToDoc mode env w))))"
proof (rule run_cases [of mode env w])
  assume "rr_inserted (processMessagesToDoc mode env w) = []"
    and sp: "same_props (snd (ensureConsolidatedDoc w)) (rr_world (processMessagesToDoc mode env w))"
  then show ?thesis using same_props_reads [OF sp] by (simp add: ensure_same_reads)
next
  assume "rr_inserted (processMessagesToDoc mode env w) = []"
    and sp: "same_props (snd (ensureConsolidatedDoc w)) (rr_world (processMessagesToDoc mode env w))"
  then show ?thesis using same_props_reads [OF sp] by (simp add: ensure_same_reads)
next
  assume "prop_last_iso (rr_world (processMessagesToDoc mode env w)) =
         Some (Max (insert (watermark w) (it_date ` set (rr_inserted (processMessagesToDoc mode env w)))))"
  then show ?thesis by (simp add: watermark_def)
qed

section \<open>The watermark\<close>

lemma watermark_world1: "watermark world1 = 0"
  by (simp add: watermark_def world1_def EPOCH_def)

lemma getRecentIds_world1: "getRecentIds world1 = []"
  by (simp add: getRecentIds_def world1_def)






section \<open>The recency set\<close>

lemma set_add_facts:
  "set (set_add s x) = insert x (set s)"
  "distinct s \<Longrightarrow> distinct (set_add s x)"
  by (auto simp: set_add_def set_has_def)

lemma foldl_set_add_facts:
  "set (foldl set_add s xs) = set s \<union> set xs"
  "distinct s \<Longrightarrow> distinct (foldl set_add s xs)"
  by (induction xs arbitrary: s) (auto simp: set_add_facts)


lemma foldl_set_add_distinct_id:
  "distinct xs \<Longrightarrow> set s \<inter> set xs = {} \<Longrightarrow> foldl set_add s xs = s @ xs"
  by (induction xs arbitrary: s) (auto simp: set_add_def set_has_def)

lemma new_Set_facts:
  "set (new_Set xs) = set xs"
  "distinct (new_Set xs)"
  "distinct xs \<Longrightarrow> new_Set xs = xs"
  using foldl_set_add_facts [of "[]" xs] foldl_set_add_distinct_id [of xs "[]"]
  by (simp_all add: new_Set_def)


lemma length_getRecentIds: "length (getRecentIds w) \<le> recent_size w"
proof (cases "prop_recent_ids w")
  case None
  then show ?thesis by (simp add: getRecentIds_def recent_size_def)
next
  case (Some arr)
  have "length (new_Set arr) = card (set arr)"
    using distinct_card [OF new_Set_facts(2) [of arr]] by (simp add: new_Set_facts(1))
  also have "\<dots> \<le> length arr" by (rule card_length)
  finally show ?thesis by (simp add: getRecentIds_def recent_size_def Some)
qed

lemma slice_last_facts:
  "length (slice_last n xs) \<le> n"
  "take (length xs - n) xs @ slice_last n xs = xs"
  "distinct xs \<Longrightarrow> distinct (slice_last n xs)"
  "set (slice_last n xs) \<subseteq> set xs"
  by (auto simp: slice_last_def dest: in_set_dropD)



lemma same_props_recent_size: "same_props w w' \<Longrightarrow> recent_size w' = recent_size w"
  by (simp add: same_props_def recent_size_def)

lemma run_recent:
  "prop_recent_ids (rr_world (processMessagesToDoc mode env w)) =
     (if rr_raised (processMessagesToDoc mode env w) = None
         \<and> rr_selected (processMessagesToDoc mode env w) \<noteq> []
      then Some (slice_last RECENT_IDS_LIMIT
                  (foldl set_add (getRecentIds w)
                     (map it_id (rr_inserted (processMessagesToDoc mode env w)))))
      else prop_recent_ids w)"
proof (rule run_cases [of mode env w])
  assume "rr_selected (processMessagesToDoc mode env w) = []"
    and sp: "same_props (snd (ensureConsolidatedDoc w)) (rr_world (processMessagesToDoc mode env w))"
  then show ?thesis by (simp add: same_props_def ensure_fields)
next
  fix e
  assume "rr_raised (processMessagesToDoc mode env w) = Some e"
    and sp: "same_props (snd (ensureConsolidatedDoc w)) (rr_world (processMessagesToDoc mode env w))"
  then show ?thesis by (simp add: same_props_def ensure_fields)
next
  assume "rr_selected (processMessagesToDoc mode env w) \<noteq> []"
    "rr_raised (processMessagesToDoc mode env w) = None"
    "prop_recent_ids (rr_world (processMessagesToDoc mode env w)) =
         Some (slice_last RECENT_IDS_LIMIT
                (foldl set_add (getRecentIds w) (map it_id (rr_inserted (processMessagesToDoc mode env w)))))"
  then show ?thesis by simp
qed



lemma getRecentIds_Some: "prop_recent_ids w = Some arr \<Longrightarrow> getRecentIds w = new_Set arr"
  by (simp add: getRecentIds_def)




lemma long_ids:
  "map it_id (map mk_item long_thread) = ''m'' # map (\<lambda>n. replicate (Suc n) (CHR ''m'')) [1..<201]"
  by (simp add: long_thread_def mk_item_def comp_def upt_conv_Cons [of 0 201])






section \<open>Later executions\<close>

lemma init_watermark: "watermark (gtd_init w) = watermark w"
proof -
  have "prop_last_iso (gtd_init w) = (if prop_last_iso w = None then Some EPOCH else prop_last_iso w)"
    using ensure_fields(1) [of w] ensure_fields(1) [of "w\<lparr>prop_last_iso := Some EPOCH\<rparr>"]
    by (simp add: gtd_init_def Let_def split_def Logger_log_def)
  then show ?thesis by (simp add: watermark_def split: option.splits)
qed

lemma run_watermark_mono: "watermark w \<le> watermark (rr_world (processMessagesToDoc mode env w))"
  by (simp add: run_watermark)

lemma apply_op_mono: "op \<noteq> Reset \<Longrightarrow> watermark w \<le> watermark (apply_op op w)"
  by (cases op) (simp_all add: run_watermark_mono init_watermark)

lemma apply_ops_mono: "Reset \<notin> set ops \<Longrightarrow> watermark w \<le> watermark (apply_ops ops w)"
proof (induction ops arbitrary: w)
  case Nil
  then show ?case by (simp add: apply_ops_def)
next
  case (Cons op ops)
  then have "op \<noteq> Reset" by auto
  then have "watermark w \<le> watermark (apply_op op w)" by (rule apply_op_mono)
  also have "\<dots> \<le> watermark (apply_ops ops (apply_op op w))" using Cons by simp
  finally show ?case by (simp add: apply_ops_def)
qed

lemma run_recent_subset:
  "set (getRecentIds (rr_world (processMessagesToDoc mode env w)))
   \<subseteq> set (getRecentIds w) \<union> it_id ` set (rr_inserted (processMessagesToDoc mode env w))"
proof (cases "rr_raised (processMessagesToDoc mode env w) = None
         \<and> rr_selected (processMessagesToDoc mode env w) \<noteq> []")
  case True
  then have "prop_recent_ids (rr_world (processMessagesToDoc mode env w)) =
      Some (slice_last RECENT_IDS_LIMIT
                  (foldl set_add (getRecentIds w)
                     (map it_id (rr_inserted (processMessagesToDoc mode env w)))))"
    by (simp add: run_recent)
  then have "set (getRecentIds (rr_world (processMessagesToDoc mode env w))) =
      set (slice_last RECENT_IDS_LIMIT
                  (foldl set_add (getRecentIds w)
                     (map it_id (rr_inserted (processMessagesToDoc mode env w)))))"
    by (simp add: getRecentIds_Some new_Set_facts(1))
  also have "\<dots> \<subseteq> set (foldl set_add (getRecentIds w)
                     (map it_id (rr_inserted (processMessagesToDoc mode env w))))"
    by (rule slice_last_facts(4))
  finally show ?thesis by (simp add: foldl_set_add_facts(1))
next
  case False
  then have "prop_recent_ids (rr_world (processMessagesToDoc mode env w)) = prop_recent_ids w"
    by (subst run_recent) (simp only: if_False)
  then show ?thesis by (simp add: getRecentIds_def)
qed

text \<open>
  C10. In \<^verbatim>\<open>doc_html\<close> mode, let a selected message \<open>m\<close> fail (its call raised and was
  caught, so it is not among the inserted ones) while a message \<open>m'\<close> with a strictly
  greater timestamp is inserted, the selected messages having pairwise distinct
  identifiers (Gmail identifiers are unique). Then after the execution the timestamp of
  \<open>m\<close> is at most the persisted watermark and its identifier is not in the recency set;
  and after any sequence of later operations without a reset, no execution, in either
  mode and whatever the mailbox holds, selects or inserts \<open>m\<close>: the failed message is
  dropped, not retried.
\<close>

theorem C10_failed_message_dropped:
  assumes "m \<in> set (rr_selected (processMessagesToDoc ''doc_html'' env w))"
    and "m \<notin> set (rr_inserted (processMessagesToDoc ''doc_html'' env w))"
    and "m' \<in> set (rr_inserted (processMessagesToDoc ''doc_html'' env w))"
    and "it_date m < it_date m'"
    and "distinct (map it_id (rr_selected (processMessagesToDoc ''doc_html'' env w)))"
  shows "it_date m \<le> watermark (rr_world (processMessagesToDoc ''doc_html'' env w))
    \<and> it_id m \<notin> set (getRecentIds (rr_world (processMessagesToDoc ''doc_html'' env w)))
    \<and> (\<forall>ops mode' env'. Reset \<notin> set ops \<longrightarrow>
          it_message m \<notin> it_message `
            set (rr_selected (processMessagesToDoc mode' env'
                   (apply_ops ops (rr_world (processMessagesToDoc ''doc_html'' env w)))))
          \<and> it_message m \<notin> it_message `
            set (rr_inserted (processMessagesToDoc mode' env'
                   (apply_ops ops (rr_world (processMessagesToDoc ''doc_html'' env w))))))"
proof -
  let ?rr = "processMessagesToDoc ''doc_html'' env w"
  have "it_date m' \<le> Max (insert (watermark w) (it_date ` set (rr_inserted ?rr)))"
    using assms(3) by (intro Max_ge) auto
  then have lt: "it_date m < watermark (rr_world ?rr)"
    using assms(4) by (simp only: run_watermark)
  have old: "it_id m \<notin> set (getRecentIds w)"
    using assms(1) run_batch_eligible [of m env w] by (simp add: run_selected)
  have new: "it_id m \<notin> it_id ` set (rr_inserted ?rr)"
  proof
    assume "it_id m \<in> it_id ` set (rr_inserted ?rr)"
    then obtain x where x: "x \<in> set (rr_inserted ?rr)" "it_id x = it_id m" by auto
    then have "x \<in> set (rr_selected ?rr)" using run_inserted_subset [of "''doc_html''" env w] by blast
    with assms(1,5) x(2) have "x = m" by (meson distinct_map inj_onD)
    with x(1) assms(2) show False by simp
  qed
  have recent: "it_id m \<notin> set (getRecentIds (rr_world ?rr))"
    using old new run_recent_subset [of "''doc_html''" env w] by blast
  have later: "it_message m \<notin> it_message ` set (rr_selected (processMessagesToDoc mode' env' (apply_ops ops (rr_world ?rr))))
      \<and> it_message m \<notin> it_message ` set (rr_inserted (processMessagesToDoc mode' env' (apply_ops ops (rr_world ?rr))))"
    if nr: "Reset \<notin> set ops" for ops mode' env'
  proof -
    let ?w' = "apply_ops ops (rr_world ?rr)"
    have wm: "it_date m < watermark ?w'" using lt apply_ops_mono [OF nr, of "rr_world ?rr"] by simp
    have md: "it_date m = msg_date (it_message m)"
      using assms(1) by (auto simp: run_selected run_batch_eq set_js_sort mk_item_def)
    have sel: "it_message m \<notin> it_message ` set (rr_selected (processMessagesToDoc mode' env' ?w'))"
    proof
      assume "it_message m \<in> it_message ` set (rr_selected (processMessagesToDoc mode' env' ?w'))"
      then obtain x where x: "x \<in> set (run_batch env' ?w')" "it_message x = it_message m"
        by (auto simp: run_selected)
      then have "watermark ?w' < it_date x" using run_batch_eligible by blast
      moreover have "it_date x = msg_date (it_message x)"
        using x(1) by (auto simp: run_batch_eq set_js_sort mk_item_def)
      ultimately show False using wm md x(2) by simp
    qed
    moreover have "set (rr_inserted (processMessagesToDoc mode' env' ?w'))
        \<subseteq> set (rr_selected (processMessagesToDoc mode' env' ?w'))"
      by (rule run_inserted_subset)
    ultimately show ?thesis by blast
  qed
  show ?thesis using lt recent later by simp
qed

lemma run_batch_mix: "run_batch env_mix world1 = [mk_item msg_a, mk_item msg_b]"
  by (simp add: run_batch_eq watermark_world1 getRecentIds_world1 env_mix_def
      MAX_MESSAGES_PER_RUN_def eligible_def set_has_def msg_a_def msg_b_def js_sort_def
      newest_first_def mk_item_def)

lemma html_outcome_mix_a: "html_outcome env_mix msg_a = None"
  by (simp add: html_outcome_def env_mix_def fullHtml_of_def msg_a_def Body_insert0_def
      escapeHtml_def replace_all_def)

lemma html_outcome_mix_b: "html_outcome env_mix msg_b = Some ''Exception: conversion failed''"
  by (simp add: html_outcome_def env_mix_def fullHtml_of_def msg_b_def escapeHtml_def
      replace_all_def)

lemma html_accepted_mix:
  "html_accepted env_mix [mk_item msg_a, mk_item msg_b] = [mk_item msg_a]"
  by (simp add: html_accepted_def mk_item_def html_outcome_mix_a html_outcome_mix_b)

lemma items_ab_differ: "mk_item msg_b \<noteq> mk_item msg_a"
  by (simp add: mk_item_def msg_a_def msg_b_def)

text \<open>
  The conversion fails for the older message and succeeds for the newer one: the older
  message is below the watermark afterwards, not in the recency set, and a later plain
  execution over the same mailbox does not select it.
\<close>

theorem C10_failed_message_dropped_witness:
  "mk_item msg_b \<in> set (rr_selected (processMessagesToDoc ''doc_html'' env_mix world1))
   \<and> mk_item msg_b \<notin> set (rr_inserted (processMessagesToDoc ''doc_html'' env_mix world1))
   \<and> mk_item msg_a \<in> set (rr_inserted (processMessagesToDoc ''doc_html'' env_mix world1))
   \<and> it_date (mk_item msg_b) < it_date (mk_item msg_a)
   \<and> distinct (map it_id (rr_selected (processMessagesToDoc ''doc_html'' env_mix world1)))
   \<and> it_date (mk_item msg_b) \<le> watermark (rr_world (processMessagesToDoc ''doc_html'' env_mix world1))
   \<and> ''b'' \<notin> set (getRecentIds (rr_world (processMessagesToDoc ''doc_html'' env_mix world1)))
   \<and> msg_b \<notin> it_message ` set (rr_selected (processMessagesToDoc ''doc_plain'' env_ab
         (apply_ops [Init] (rr_world (processMessagesToDoc ''doc_html'' env_mix world1)))))"
proof -
  let ?rr = "processMessagesToDoc ''doc_html'' env_mix world1"
  have ne: "run_batch env_mix world1 \<noteq> []" by (simp add: run_batch_mix)
  have sel: "rr_selected ?rr = [mk_item msg_a, mk_item msg_b]"
    by (simp add: run_selected run_batch_mix)
  have ins: "rr_inserted ?rr = [mk_item msg_a]"
    using run_html_summary(2) [OF ne] by (simp add: run_batch_mix html_accepted_mix)
  have h1: "mk_item msg_b \<in> set (rr_selected ?rr)" by (simp add: sel)
  have h2: "mk_item msg_b \<notin> set (rr_inserted ?rr)" by (simp add: ins items_ab_differ)
  have h3: "mk_item msg_a \<in> set (rr_inserted ?rr)" by (simp add: ins)
  have h4: "it_date (mk_item msg_b) < it_date (mk_item msg_a)"
    by (simp add: mk_item_def msg_a_def msg_b_def)
  have h5: "distinct (map it_id (rr_selected ?rr))"
    by (simp add: sel mk_item_def msg_a_def msg_b_def)
  have v: "it_id (mk_item msg_b) = ''b''" "it_message (mk_item msg_b) = msg_b"
    by (simp_all add: mk_item_def msg_b_def)
  have nr: "Reset \<notin> set [Init]" by simp
  from C10_failed_message_dropped [OF h1 h2 h3 h4 h5]
  have c1: "it_date (mk_item msg_b) \<le> watermark (rr_world ?rr)"
    and c2: "it_id (mk_item msg_b) \<notin> set (getRecentIds (rr_world ?rr))"
    and c3: "it_message (mk_item msg_b) \<notin> it_message `
            set (rr_selected (processMessagesToDoc ''doc_plain'' env_ab (apply_ops [Init] (rr_world ?rr))))"
    using nr by blast+
  show ?thesis by (intro conjI h1 h2 h3 h4 h5 c1 c2 [unfolded v] c3 [unfolded v])
qed

section \<open>Failures while inserting\<close>






lemma setTrashed_lookup_body:
  "lookup_doc w i = Some d \<Longrightarrow> \<exists>d'. lookup_doc (setTrashed j w) i = Some d' \<and> doc_body d' = doc_body d"
  unfolding setTrashed_def
  by (cases "i = j") (auto simp: lookup_update_same lookup_update_other)


lemma lookup_Logger_log [simp]: "lookup_doc (Logger_log e w) i = lookup_doc w i"
  by (simp add: Logger_log_add_logs)


lemma persist_state_lookup [simp]: "lookup_doc (persist_state n r w) i = lookup_doc w i"
  by (simp add: lookup_doc_def)




















end
